theory Spec2Isabelle
  imports Main "HOL-Library.Word"
begin

section \<open>sdm: a chunked HTTP download manager (main.go)\<close>

text \<open>
  The development embeds \<^verbatim>\<open>main.go\<close>: the worker heuristic, the chunk plan, the
  capability probe, the per-chunk retry loop, the chunk fetcher and the single-stream
  fallback. Go's \<^verbatim>\<open>int\<close> is modelled as \<^typ>\<open>int\<close>: the plan is computed only after
  \<^verbatim>\<open>Truncate\<close> has accepted the size, so the size is not negative, the worker count is
  at least 1 (\<open>resolveWorkers_pos\<close>), and lemma \<open>chunkRange_no_overflow\<close> shows that
  every value the plan computes stays between \<open>-1\<close> and the file size: no 64-bit
  operation of the plan wraps around.
\<close>

subsection \<open>Worker heuristic and chunk plan\<close>

text \<open>The constants of \<^verbatim>\<open>calculateWorkers\<close>.\<close>

definition MB :: int where
  "MB = 1024 * 1024"

definition GB :: int where
  "GB = 1024 * MB"

text \<open>\<^verbatim>\<open>func calculateWorkers(size int) int\<close>: the \<^verbatim>\<open>switch\<close>, case by case.\<close>

definition calculateWorkers :: "int \<Rightarrow> int" where
  "calculateWorkers fsize =
     (if fsize < 5 * MB then 1
      else if fsize < 100 * MB then 4
      else if fsize < 1 * GB then 8
      else 16)"

text \<open>
  Lines 124-127 of \<^verbatim>\<open>downloadFile\<close>: the heuristic, replaced by the override when
  \<^verbatim>\<open>workersOverride > 0\<close>.
\<close>

definition resolveWorkers :: "int \<Rightarrow> int \<Rightarrow> int" where
  "resolveWorkers fsize workersOverride =
     (let workers = calculateWorkers fsize
      in if workersOverride > 0 then workersOverride else workers)"

text \<open>Go's integer division truncates towards zero.\<close>

definition go_quot :: "int \<Rightarrow> int \<Rightarrow> int" where
  "go_quot a b =
     (if (a < 0) = (b < 0) then \<bar>a\<bar> div \<bar>b\<bar> else - (\<bar>a\<bar> div \<bar>b\<bar>))"

text \<open>
  The body of the loop \<^verbatim>\<open>for i := 0; i < workers; i++\<close> (lines 153-162): the range
  handed to the goroutine of chunk \<open>i\<close>.
\<close>

definition chunkRange :: "int \<Rightarrow> int \<Rightarrow> int \<Rightarrow> int \<times> int" where
  "chunkRange fsize workers i =
     (let partSize = go_quot fsize workers;
          start = i * partSize;
          endv = start + partSize - 1
      in (start, if i = workers - 1 then fsize - 1 else endv))"

definition chunkPlan :: "int \<Rightarrow> int \<Rightarrow> (int \<times> int) list" where
  "chunkPlan fsize workers = map (\<lambda>i. chunkRange fsize workers (int i)) [0..<nat workers]"

text \<open>The bytes a range \<open>(start, end)\<close> covers; none when \<open>end < start\<close>.\<close>

definition range_bytes :: "int \<times> int \<Rightarrow> int set" where
  "range_bytes r = {fst r..snd r}"


subsection \<open>The world outside the program\<close>

text \<open>
  The program talks to an HTTP server and to the file system. Both are an environment
  of oracles: the answer to a call depends on the call and on how many calls and events
  came before it (\<open>tick\<close>), so any deterministic server or disk is an instance. Every
  call the program makes is appended to a trace.
\<close>

type_synonym byte = "8 word"

text \<open>
  Go's \<^verbatim>\<open>error\<close> values of the program: the sentinel \<^verbatim>\<open>io.EOF\<close>, the errors of the
  HTTP client and of the file system, and the errors \<^verbatim>\<open>fmt.Errorf\<close> builds.
\<close>

datatype error =
    EOF
  | TransportError string
  | UrlError
  | IOError string
  | StatusError int
  | MissingContentLength
  | InvalidContentLength
  | VerifyError error
  | NoPartialContent int

text \<open>
  A response: its status code, its headers, and its body as the sequence of results
  \<open>(bytes, err)\<close> that successive calls of \<^verbatim>\<open>Body.Read\<close> return. Past the end of the
  sequence \<^verbatim>\<open>Read\<close> returns \<open>(0, io.EOF)\<close>.
\<close>

record response =
  StatusCode :: int
  Header :: "(string \<times> string) list"
  Body :: "(byte list \<times> error option) list"

text \<open>\<^verbatim>\<open>Header.Get\<close>: the empty string for an absent header.\<close>

definition Header_Get :: "response \<Rightarrow> string \<Rightarrow> string" where
  "Header_Get resp k = (case map_of (Header resp) k of None \<Rightarrow> [] | Some v \<Rightarrow> v)"

text \<open>
  A request: \<^verbatim>\<open>HEAD url\<close>, or \<^verbatim>\<open>GET url\<close> with an optional header
  \<^verbatim>\<open>Range: bytes=start-end\<close>.
\<close>

datatype request = Head string | Get string "(int \<times> int) option"

datatype fs_op =
    OpCreate string
  | OpTruncate string int
  | OpOpen string
  | OpSeek string int
  | OpWrite string nat "byte list"

datatype event =
    Http request
  | Fs fs_op
  | BarAdd nat
  | Sleep nat
  | PrintRetrying int int int
  | PrintFailed int int int

record env =
  url_ok :: "string \<Rightarrow> bool"
  http :: "nat \<Rightarrow> request \<Rightarrow> error + response"
  fs_fault :: "nat \<Rightarrow> fs_op \<Rightarrow> error option"
  short_write :: "nat \<Rightarrow> nat"

record world =
  tick :: nat
  files :: "string \<Rightarrow> byte list option"
  trace :: "event list"

definition emit :: "event \<Rightarrow> world \<Rightarrow> world" where
  "emit ev w = w\<lparr>tick := Suc (tick w), trace := trace w @ [ev]\<rparr>"

text \<open>The events a run added to the trace of the world it started from.\<close>

definition events_since :: "world \<Rightarrow> world \<Rightarrow> event list" where
  "events_since w w' = drop (length (trace w)) (trace w')"

text \<open>\<^verbatim>\<open>http.NewRequest("GET", url, nil)\<close> fails when the URL does not parse.\<close>

definition NewRequest :: "env \<Rightarrow> string \<Rightarrow> error option" where
  "NewRequest e url = (if url_ok e url then None else Some UrlError)"

text \<open>\<^verbatim>\<open>client.Do\<close>, \<^verbatim>\<open>http.Head\<close> and \<^verbatim>\<open>http.Get\<close>: one exchange with the server.\<close>

definition client_Do :: "env \<Rightarrow> request \<Rightarrow> world \<Rightarrow> (error + response) \<times> world" where
  "client_Do e req w = (http e (tick w) req, emit (Http req) w)"

definition content_of :: "world \<Rightarrow> string \<Rightarrow> byte list" where
  "content_of w path = (case files w path of None \<Rightarrow> [] | Some c \<Rightarrow> c)"

text \<open>A positioned write: the file is zero-filled up to the offset when it is shorter.\<close>

definition write_at :: "byte list \<Rightarrow> nat \<Rightarrow> byte list \<Rightarrow> byte list" where
  "write_at content pos buf =
     take pos (content @ replicate (pos - length content) 0) @ buf
       @ drop (pos + length buf) content"

definition resize :: "nat \<Rightarrow> byte list \<Rightarrow> byte list" where
  "resize n content = take n content @ replicate (n - length content) 0"

text \<open>\<^verbatim>\<open>os.Create\<close>: creates the file, or truncates it to length 0 when it exists.\<close>

definition os_Create :: "env \<Rightarrow> string \<Rightarrow> world \<Rightarrow> error option \<times> world" where
  "os_Create e path w =
     (let w1 = emit (Fs (OpCreate path)) w
      in case fs_fault e (tick w) (OpCreate path) of
           Some err \<Rightarrow> (Some err, w1)
         | None \<Rightarrow> (None, w1\<lparr>files := (files w1)(path := Some [])\<rparr>))"

text \<open>\<^verbatim>\<open>file.Truncate\<close>: a negative length is refused by the system.\<close>

definition file_Truncate :: "env \<Rightarrow> string \<Rightarrow> int \<Rightarrow> world \<Rightarrow> error option \<times> world" where
  "file_Truncate e path n w =
     (let w1 = emit (Fs (OpTruncate path n)) w
      in if n < 0 then (Some (IOError ''invalid argument''), w1)
         else case fs_fault e (tick w) (OpTruncate path n) of
           Some err \<Rightarrow> (Some err, w1)
         | None \<Rightarrow>
             (None, w1\<lparr>files := (files w1)(path := Some (resize (nat n) (content_of w1 path)))\<rparr>))"

text \<open>\<^verbatim>\<open>os.OpenFile(path, os.O_WRONLY, 0666)\<close>: without \<^verbatim>\<open>O_CREATE\<close> the file must exist.\<close>

definition os_OpenFile :: "env \<Rightarrow> string \<Rightarrow> world \<Rightarrow> error option \<times> world" where
  "os_OpenFile e path w =
     (let w1 = emit (Fs (OpOpen path)) w
      in if files w path = None then (Some (IOError ''no such file or directory''), w1)
         else (fs_fault e (tick w) (OpOpen path), w1))"

text \<open>\<^verbatim>\<open>file.Seek(offset, io.SeekStart)\<close>: a negative offset is refused.\<close>

definition file_Seek :: "env \<Rightarrow> string \<Rightarrow> int \<Rightarrow> world \<Rightarrow> error option \<times> world" where
  "file_Seek e path off w =
     (let w1 = emit (Fs (OpSeek path off)) w
      in if off < 0 then (Some (IOError ''invalid argument''), w1)
         else (fs_fault e (tick w) (OpSeek path off), w1))"

text \<open>
  \<^verbatim>\<open>file.Write\<close> at the handle's position \<open>pos\<close>. A failing write may have stored a
  prefix of the buffer (\<open>short_write\<close> bytes of it).
\<close>

definition file_Write :: "env \<Rightarrow> string \<Rightarrow> nat \<Rightarrow> byte list \<Rightarrow> world \<Rightarrow> error option \<times> world" where
  "file_Write e path pos buf w =
     (let w1 = emit (Fs (OpWrite path pos buf)) w
      in case fs_fault e (tick w) (OpWrite path pos buf) of
           Some err \<Rightarrow>
             (Some err, w1\<lparr>files := (files w1)(path :=
                Some (write_at (content_of w1 path) pos (take (short_write e (tick w)) buf)))\<rparr>)
         | None \<Rightarrow>
             (None, w1\<lparr>files := (files w1)(path := Some (write_at (content_of w1 path) pos buf))\<rparr>))"

subsection \<open>Parsing the content length\<close>

text \<open>
  \<^verbatim>\<open>strconv.Atoi\<close> on a 64-bit platform: an optional sign, then one or more decimal
  digits; an error for anything else and for a value outside the range of \<^verbatim>\<open>int\<close>.
\<close>

definition digit_val :: "char \<Rightarrow> nat option" where
  "digit_val c =
     (let n = (of_char c :: nat) in if 48 \<le> n \<and> n \<le> 57 then Some (n - 48) else None)"

fun parse_digits :: "string \<Rightarrow> nat \<Rightarrow> nat option" where
  "parse_digits [] acc = Some acc"
| "parse_digits (c # cs) acc =
     (case digit_val c of None \<Rightarrow> None | Some d \<Rightarrow> parse_digits cs (10 * acc + d))"

definition Atoi :: "string \<Rightarrow> int option" where
  "Atoi s =
     (let neg = (s \<noteq> [] \<and> hd s = CHR ''-'');
          ds = (if s \<noteq> [] \<and> (hd s = CHR ''-'' \<or> hd s = CHR ''+'') then tl s else s)
      in if ds = [] then None
         else (case parse_digits ds 0 of
                 None \<Rightarrow> None
               | Some n \<Rightarrow>
                   (let v = (if neg then - int n else int n)
                    in if - (2 ^ 63) \<le> v \<and> v < 2 ^ 63 then Some v else None)))"

subsection \<open>The chunk fetcher: \<^verbatim>\<open>downloadPart\<close>\<close>

text \<open>
  The loop of lines 217-233: each \<^verbatim>\<open>Read\<close> result is written at the handle's position
  when it holds bytes, then its error ends the loop (\<^verbatim>\<open>io.EOF\<close>: success).
\<close>

fun readLoop :: "env \<Rightarrow> string \<Rightarrow> nat \<Rightarrow> (byte list \<times> error option) list \<Rightarrow> world
    \<Rightarrow> error option \<times> world" where
  "readLoop e path pos [] w = (None, w)"
| "readLoop e path pos ((buf, err) # rest) w =
     (let written =
            (if length buf > 0
             then (case file_Write e path pos buf w of
                     (Some writeErr, w1) \<Rightarrow> (Some writeErr, w1)
                   | (None, w1) \<Rightarrow> (None, emit (BarAdd (length buf)) w1))
             else (None, w))
      in case fst written of
           Some writeErr \<Rightarrow> (Some writeErr, snd written)
         | None \<Rightarrow>
             (case err of
                None \<Rightarrow> readLoop e path (pos + length buf) rest (snd written)
              | Some rerr \<Rightarrow>
                  if rerr = EOF then (None, snd written) else (Some rerr, snd written)))"

text \<open>\<^verbatim>\<open>func downloadPart(client, url, output string, start, end int) error\<close>.\<close>

definition downloadPart :: "env \<Rightarrow> string \<Rightarrow> string \<Rightarrow> int \<Rightarrow> int \<Rightarrow> world
    \<Rightarrow> error option \<times> world" where
  "downloadPart e url output start endv w =
     (case NewRequest e url of
        Some err \<Rightarrow> (Some err, w)
      | None \<Rightarrow>
          (case client_Do e (Get url (Some (start, endv))) w of
             (Inl err, w1) \<Rightarrow> (Some err, w1)
           | (Inr resp, w1) \<Rightarrow>
               if StatusCode resp \<noteq> 206
               then (Some (NoPartialContent (StatusCode resp)), w1)
               else (case os_OpenFile e output w1 of
                       (Some err, w2) \<Rightarrow> (Some err, w2)
                     | (None, w2) \<Rightarrow>
                         (case file_Seek e output start w2 of
                            (Some err, w3) \<Rightarrow> (Some err, w3)
                          | (None, w3) \<Rightarrow> readLoop e output (nat start) (Body resp) w3))))"

subsection \<open>The single-stream fallback: \<^verbatim>\<open>singleDownload\<close>\<close>

text \<open>
  \<^verbatim>\<open>io.Copy(io.MultiWriter(file, bar), resp.Body)\<close>: the library's copy loop reads,
  writes to the file and then to the progress bar, from offset 0 of the new file, and
  returns \<^verbatim>\<open>nil\<close> at \<^verbatim>\<open>io.EOF\<close>.
\<close>

definition io_Copy :: "env \<Rightarrow> string \<Rightarrow> (byte list \<times> error option) list \<Rightarrow> world
    \<Rightarrow> error option \<times> world" where
  "io_Copy e path body w = readLoop e path 0 body w"

text \<open>\<^verbatim>\<open>func singleDownload(url, output string) error\<close>.\<close>

definition singleDownload :: "env \<Rightarrow> string \<Rightarrow> string \<Rightarrow> world \<Rightarrow> error option \<times> world" where
  "singleDownload e url output w =
     (case client_Do e (Get url None) w of
        (Inl err, w1) \<Rightarrow> (Some err, w1)
      | (Inr resp, w1) \<Rightarrow>
          if StatusCode resp \<noteq> 200 then (Some (StatusError (StatusCode resp)), w1)
          else (case os_Create e output w1 of
                  (Some err, w2) \<Rightarrow> (Some err, w2)
                | (None, w2) \<Rightarrow> io_Copy e output (Body resp) w2))"

subsection \<open>The range probe: \<^verbatim>\<open>verifyPartialSupport\<close>\<close>

definition verifyPartialSupport :: "env \<Rightarrow> string \<Rightarrow> world \<Rightarrow> (error + bool) \<times> world" where
  "verifyPartialSupport e url w =
     (case NewRequest e url of
        Some err \<Rightarrow> (Inl err, w)
      | None \<Rightarrow>
          (case client_Do e (Get url (Some (0, 1))) w of
             (Inl err, w1) \<Rightarrow> (Inl err, w1)
           | (Inr resp, w1) \<Rightarrow> (Inr (StatusCode resp = 206), w1)))"

subsection \<open>The retry loop and the coordinator: \<^verbatim>\<open>downloadFile\<close>\<close>

definition maxRetries :: int where
  "maxRetries = 3"

text \<open>\<^verbatim>\<open>time.Second\<close>, in nanoseconds, and \<^verbatim>\<open>retryBackoff = 2 * time.Second\<close>.\<close>

definition Second :: nat where
  "Second = 1000000000"

definition retryBackoff :: nat where
  "retryBackoff = 2 * Second"

text \<open>
  The body of the goroutine (lines 164-180): the loop around \<^verbatim>\<open>downloadPart\<close>, with
  its counter \<^verbatim>\<open>retries\<close>. The goroutine returns nothing; what it leaves is the world.
\<close>

function retryLoop :: "env \<Rightarrow> string \<Rightarrow> string \<Rightarrow> int \<Rightarrow> int \<Rightarrow> int \<Rightarrow> world \<Rightarrow> world" where
  "retryLoop e url output start endv retries w =
     (let r = downloadPart e url output start endv w
      in if fst r = None then snd r
         else if retries + 1 > maxRetries
           then emit (PrintFailed start endv maxRetries) (snd r)
           else retryLoop e url output start endv (retries + 1)
                  (emit (Sleep retryBackoff)
                     (emit (PrintRetrying start endv (retries + 1)) (snd r))))"
  by pat_completeness auto
termination
  by (relation "measure (\<lambda>(e, url, output, start, endv, retries, w). nat (maxRetries + 1 - retries))")
    auto

declare retryLoop.simps [simp del]

text \<open>
  The loop that starts one goroutine per chunk, and \<^verbatim>\<open>wg.Wait()\<close>. The goroutines run
  concurrently; the model runs their loops one after the other in the order of the
  plan. Each loop reads only its own \<open>start\<close> and \<open>end\<close>, and nothing a goroutine
  computes reaches the value \<^verbatim>\<open>downloadFile\<close> returns.
\<close>

definition runChunks :: "env \<Rightarrow> string \<Rightarrow> string \<Rightarrow> (int \<times> int) list \<Rightarrow> world \<Rightarrow> world" where
  "runChunks e url output plan w =
     foldl (\<lambda>w' r. retryLoop e url output (fst r) (snd r) 0 w') w plan"

text \<open>Lines 122-184 of \<^verbatim>\<open>downloadFile\<close>: the ranged transfer, once the probe has passed.\<close>

definition rangedDownload :: "env \<Rightarrow> string \<Rightarrow> string \<Rightarrow> int \<Rightarrow> int \<Rightarrow> world
    \<Rightarrow> error option \<times> world" where
  "rangedDownload e url output fsize workersOverride w =
     (let workers = resolveWorkers fsize workersOverride
      in case os_Create e output w of
           (Some err, w1) \<Rightarrow> (Some err, w1)
         | (None, w1) \<Rightarrow>
             (case file_Truncate e output fsize w1 of
                (Some err, w2) \<Rightarrow> (Some err, w2)
              | (None, w2) \<Rightarrow> (None, runChunks e url output (chunkPlan fsize workers) w2)))"

text \<open>\<^verbatim>\<open>func downloadFile(url, output string, workersOverride int) error\<close>.\<close>

definition downloadFile :: "env \<Rightarrow> string \<Rightarrow> string \<Rightarrow> int \<Rightarrow> world \<Rightarrow> error option \<times> world" where
  "downloadFile e url output workersOverride w =
     (case client_Do e (Head url) w of
        (Inl err, w1) \<Rightarrow> (Some err, w1)
      | (Inr resp, w1) \<Rightarrow>
          if StatusCode resp \<noteq> 200 then (Some (StatusError (StatusCode resp)), w1)
          else let sizeStr = Header_Get resp ''Content-Length''
            in if sizeStr = [] then (Some MissingContentLength, w1)
               else (case Atoi sizeStr of
                       None \<Rightarrow> (Some InvalidContentLength, w1)
                     | Some fsize \<Rightarrow>
                         if Header_Get resp ''Accept-Ranges'' \<noteq> ''bytes''
                         then singleDownload e url output w1
                         else (case verifyPartialSupport e url w1 of
                                 (Inl err, w2) \<Rightarrow> (Some (VerifyError err), w2)
                               | (Inr partialSupported, w2) \<Rightarrow>
                                   if \<not> partialSupported
                                   then singleDownload e url output w2
                                   else rangedDownload e url output fsize workersOverride w2)))"

text \<open>
  Lines 66-85 of \<^verbatim>\<open>downloadCmd\<close>: the exit status of the process, 1 after
  \<^verbatim>\<open>"Download failed"\<close> and 0 after \<^verbatim>\<open>"Download completed successfully!"\<close>.
\<close>

definition downloadCmd :: "env \<Rightarrow> string \<Rightarrow> string \<Rightarrow> int \<Rightarrow> world \<Rightarrow> nat" where
  "downloadCmd e url output workersFlag w =
     (case fst (downloadFile e url output workersFlag w) of Some err \<Rightarrow> 1 | None \<Rightarrow> 0)"

text \<open>
  The bytes a body delivers before its first error, and whether that first error (if
  any) is \<^verbatim>\<open>io.EOF\<close>: the stream ends without a transport error.
\<close>

fun received :: "(byte list \<times> error option) list \<Rightarrow> byte list" where
  "received [] = []"
| "received ((buf, err) # rest) = buf @ (case err of None \<Rightarrow> received rest | Some rerr \<Rightarrow> [])"

fun ends_in_EOF :: "(byte list \<times> error option) list \<Rightarrow> bool" where
  "ends_in_EOF [] = True"
| "ends_in_EOF ((buf, err) # rest) = (case err of None \<Rightarrow> ends_in_EOF rest | Some rerr \<Rightarrow> rerr = EOF)"

subsection \<open>Reading the trace\<close>

definition is_request :: "event \<Rightarrow> bool" where
  "is_request ev = (case ev of Http r \<Rightarrow> True | _ \<Rightarrow> False)"

definition is_sleep :: "event \<Rightarrow> bool" where
  "is_sleep ev = (case ev of Sleep d \<Rightarrow> True | _ \<Rightarrow> False)"

definition is_fs :: "event \<Rightarrow> bool" where
  "is_fs ev = (case ev of Fs op \<Rightarrow> True | _ \<Rightarrow> False)"

definition grows :: "world \<Rightarrow> world \<Rightarrow> bool" where
  "grows w w' = (trace w' = trace w @ events_since w w')"

definition is_unranged_get :: "event \<Rightarrow> bool" where
  "is_unranged_get ev = (case ev of Http r \<Rightarrow> (case r of Get u rg \<Rightarrow> rg = None | _ \<Rightarrow> False) | _ \<Rightarrow> False)"

text \<open>What one call of \<^verbatim>\<open>downloadPart\<close> for a range may put on the trace.\<close>

definition part_event :: "string \<Rightarrow> string \<Rightarrow> int \<Rightarrow> int \<Rightarrow> event \<Rightarrow> bool" where
  "part_event url output start endv ev =
     (case ev of
        Http r \<Rightarrow> r = Get url (Some (start, endv))
      | Fs op \<Rightarrow>
          (case op of
             OpOpen p \<Rightarrow> p = output
           | OpSeek p off \<Rightarrow> p = output \<and> off = start
           | OpWrite p pos buf \<Rightarrow> p = output \<and> nat start \<le> pos
           | _ \<Rightarrow> False)
      | BarAdd n \<Rightarrow> True
      | _ \<Rightarrow> False)"

text \<open>What the read loop may put on the trace.\<close>

definition body_event :: "string \<Rightarrow> nat \<Rightarrow> event \<Rightarrow> bool" where
  "body_event path pos ev =
     (case ev of
        Fs op \<Rightarrow> (case op of OpWrite p q buf \<Rightarrow> p = path \<and> pos \<le> q | _ \<Rightarrow> False)
      | BarAdd n \<Rightarrow> True
      | _ \<Rightarrow> False)"

text \<open>What the retry loop of one chunk may put on the trace.\<close>

definition chunk_event :: "string \<Rightarrow> string \<Rightarrow> int \<Rightarrow> int \<Rightarrow> event \<Rightarrow> bool" where
  "chunk_event url out start endv ev =
     (case ev of
        Sleep d \<Rightarrow> d = retryBackoff
      | PrintRetrying a b k \<Rightarrow> a = start \<and> b = endv
      | PrintFailed a b k \<Rightarrow> a = start \<and> b = endv \<and> k = maxRetries
      | _ \<Rightarrow> part_event url out start endv ev)"

subsection \<open>The retry supervisor as the specification words it\<close>

text \<open>
  One initial attempt, then up to \<open>n\<close> further attempts after a failure, with a pause
  before each of them; the first success ends it, and after the last failure it gives
  up. \<open>k\<close> numbers the retries.
\<close>

fun supervised :: "(world \<Rightarrow> error option \<times> world) \<Rightarrow> (int \<Rightarrow> world \<Rightarrow> world) \<Rightarrow> (world \<Rightarrow> world)
    \<Rightarrow> nat \<Rightarrow> int \<Rightarrow> world \<Rightarrow> world" where
  "supervised fetch pause give_up 0 k w =
     (case fetch w of (None, w1) \<Rightarrow> w1 | (Some err, w1) \<Rightarrow> give_up w1)"
| "supervised fetch pause give_up (Suc n) k w =
     (case fetch w of
        (None, w1) \<Rightarrow> w1
      | (Some err, w1) \<Rightarrow> supervised fetch pause give_up n (k + 1) (pause k w1))"

subsection \<open>Concrete servers and worlds\<close>

text \<open>
  A server that answers every \<^verbatim>\<open>HEAD\<close> with \<open>h\<close>, a ranged \<^verbatim>\<open>GET\<close> of range \<open>r\<close> at
  tick \<open>t\<close> with \<open>ranged t r\<close> and an unranged \<^verbatim>\<open>GET\<close> with \<open>whole\<close>, on a disk without
  faults; the world before the program starts.
\<close>

definition server :: "response \<Rightarrow> (nat \<Rightarrow> int \<times> int \<Rightarrow> error + response) \<Rightarrow> (error + response) \<Rightarrow> env" where
  "server h ranged whole =
     \<lparr>url_ok = (\<lambda>u. True),
      http = (\<lambda>t req. case req of
                Head u \<Rightarrow> Inr h
              | Get u rg \<Rightarrow> (case rg of None \<Rightarrow> whole | Some r \<Rightarrow> ranged t r)),
      fs_fault = (\<lambda>t op. None),
      short_write = (\<lambda>t. 0)\<rparr>"

definition head_resp :: "int \<Rightarrow> string \<Rightarrow> string \<Rightarrow> response" where
  "head_resp code len ranges =
     \<lparr>StatusCode = code, Header = [(''Content-Length'', len), (''Accept-Ranges'', ranges)], Body = []\<rparr>"

definition reply :: "int \<Rightarrow> (byte list \<times> error option) list \<Rightarrow> response" where
  "reply code body = \<lparr>StatusCode = code, Header = [], Body = body\<rparr>"

definition fresh :: world where
  "fresh = \<lparr>tick = 0, files = (\<lambda>p. None), trace = []\<rparr>"

subsection \<open>Facts about the heuristic and the plan\<close>

lemma go_quot_nonneg: "0 \<le> a \<Longrightarrow> 0 < b \<Longrightarrow> go_quot a b = a div b"
  by (simp add: go_quot_def)

text \<open>The loop always has at least one worker, so the division never divides by zero.\<close>

lemma resolveWorkers_pos: "1 \<le> resolveWorkers fsize workersOverride"
  by (simp add: resolveWorkers_def calculateWorkers_def)

lemma chunkPlan_length: "length (chunkPlan fsize workers) = nat workers"
  by (simp add: chunkPlan_def)

lemma chunkPlan_nth:
  "i < nat workers \<Longrightarrow> chunkPlan fsize workers ! i = chunkRange fsize workers (int i)"
  by (simp add: chunkPlan_def)

lemma set_chunkPlan:
  "set (chunkPlan fsize workers) = chunkRange fsize workers ` {i. 0 \<le> i \<and> i < workers}"
proof -
  have "int ` {0..<nat workers} = {i. 0 \<le> i \<and> i < workers}"
  proof (intro set_eqI iffI)
    fix i assume "i \<in> {i. 0 \<le> i \<and> i < workers}"
    then have "i = int (nat i)" "nat i \<in> {0..<nat workers}" by auto
    then show "i \<in> int ` {0..<nat workers}" by blast
  qed auto
  then show ?thesis
    by (simp add: chunkPlan_def image_image [symmetric])
qed

lemma part_nonneg:
  assumes "0 \<le> (fsize::int)" "1 \<le> (workers::int)"
  shows "0 \<le> fsize div workers"
proof -
  have "0 < workers" using assms(2) by linarith
  then show ?thesis using assms(1) by (simp add: pos_imp_zdiv_nonneg_iff)
qed

lemma chunkRange_mid:
  assumes "0 \<le> fsize" "1 \<le> workers" "i \<noteq> workers - 1"
  shows "chunkRange fsize workers i = (i * (fsize div workers), i * (fsize div workers) + fsize div workers - 1)"
  using assms by (simp add: chunkRange_def go_quot_nonneg Let_def)

lemma chunkRange_last:
  assumes "0 \<le> fsize" "1 \<le> workers"
  shows "chunkRange fsize workers (workers - 1) = ((workers - 1) * (fsize div workers), fsize - 1)"
  using assms by (simp add: chunkRange_def go_quot_nonneg Let_def)

lemma chunkRange_fst:
  assumes "0 \<le> fsize" "1 \<le> workers"
  shows "fst (chunkRange fsize workers i) = i * (fsize div workers)"
  using assms by (simp add: chunkRange_def go_quot_nonneg Let_def)

lemma div_times_le:
  assumes "0 < (p::int)"
  shows "(x div p) * p \<le> x" and "x < (x div p) * p + p"
proof -
  have e: "x = (x div p) * p + x mod p" by simp
  have "0 \<le> x mod p" "x mod p < p" using assms by simp_all
  with e show "(x div p) * p \<le> x" and "x < (x div p) * p + p" by linarith+
qed

lemma part_times_le:
  assumes "0 \<le> (fsize::int)" "1 \<le> (workers::int)" "0 \<le> k" "k \<le> workers"
  shows "k * (fsize div workers) \<le> fsize"
proof -
  have "0 \<le> fsize div workers" using assms(1,2) by (rule part_nonneg)
  then have "k * (fsize div workers) \<le> workers * (fsize div workers)"
    using assms(4) by (rule mult_right_mono [rotated])
  also have "\<dots> \<le> fsize"
    using div_times_le(1) [of workers fsize] assms(2) by (simp add: mult.commute)
  finally show ?thesis .
qed

text \<open>
  Every start and end of the plan lies between \<open>-1\<close> and the file size: with a size
  that fits Go's \<^verbatim>\<open>int\<close>, no product or sum of the loop wraps around.
\<close>

lemma chunkRange_no_overflow:
  assumes "0 \<le> fsize" "1 \<le> workers" "0 \<le> i" "i < workers"
  shows "0 \<le> fst (chunkRange fsize workers i)
    \<and> fst (chunkRange fsize workers i) \<le> fsize
    \<and> - 1 \<le> snd (chunkRange fsize workers i)
    \<and> snd (chunkRange fsize workers i) \<le> fsize - 1
    \<and> fst (chunkRange fsize workers i) \<le> snd (chunkRange fsize workers i) + 1"
proof -
  define p where "p = fsize div workers"
  define a where "a = i * p"
  have p0: "0 \<le> p" unfolding p_def using assms(1,2) by (rule part_nonneg)
  have a0: "0 \<le> a" unfolding a_def using assms(3) p0 by (rule mult_nonneg_nonneg)
  have a1: "a \<le> fsize"
    unfolding a_def p_def using assms by (intro part_times_le) auto
  show ?thesis
  proof (cases "i = workers - 1")
    case True
    then have "chunkRange fsize workers i = (a, fsize - 1)"
      using assms(1,2) by (simp add: chunkRange_last a_def p_def)
    then show ?thesis using a0 a1 assms(1) by simp
  next
    case False
    have "(i + 1) * p \<le> fsize"
      unfolding p_def using assms False by (intro part_times_le) auto
    then have a2: "a + p \<le> fsize" by (simp add: a_def algebra_simps)
    have "chunkRange fsize workers i = (a, a + p - 1)"
      using assms(1,2) False by (simp add: chunkRange_mid a_def p_def)
    then show ?thesis using a0 a1 a2 p0 by simp
  qed
qed

lemma chunkRange_next:
  assumes "0 \<le> fsize" "1 \<le> workers" "0 \<le> i" "i + 1 < workers"
  shows "fst (chunkRange fsize workers (i + 1)) = snd (chunkRange fsize workers i) + 1"
proof -
  have "i \<noteq> workers - 1" using assms by simp
  then have l: "snd (chunkRange fsize workers i) = i * (fsize div workers) + fsize div workers - 1"
    using assms by (simp add: chunkRange_mid)
  have "fst (chunkRange fsize workers (i + 1)) = (i + 1) * (fsize div workers)"
    using assms(1,2) by (rule chunkRange_fst)
  with l show ?thesis by (simp add: algebra_simps)
qed

lemma chunkRange_before:
  assumes "0 \<le> fsize" "1 \<le> workers" "0 \<le> i" "i < j" "j < workers"
  shows "snd (chunkRange fsize workers i) < fst (chunkRange fsize workers j)"
proof -
  define p where "p = fsize div workers"
  have p0: "0 \<le> p" unfolding p_def using assms(1,2) by (rule part_nonneg)
  have "i \<noteq> workers - 1" using assms by simp
  then have l: "snd (chunkRange fsize workers i) = (i + 1) * p - 1"
    using assms by (simp add: chunkRange_mid algebra_simps p_def)
  have r: "fst (chunkRange fsize workers j) = j * p"
    unfolding p_def using assms(1,2) by (rule chunkRange_fst)
  have "i + 1 \<le> j" using assms(4) by simp
  then have "(i + 1) * p \<le> j * p" using p0 by (rule mult_right_mono)
  with l r show ?thesis by simp
qed

lemma chunkPlan_union:
  assumes "0 \<le> fsize" "1 \<le> workers"
  shows "(\<Union>r \<in> set (chunkPlan fsize workers). range_bytes r) = {0..fsize - 1}"
proof (intro set_eqI iffI)
  fix x assume "x \<in> (\<Union>r \<in> set (chunkPlan fsize workers). range_bytes r)"
  then obtain i where i: "0 \<le> i" "i < workers" and x: "x \<in> range_bytes (chunkRange fsize workers i)"
    by (auto simp: set_chunkPlan)
  from x chunkRange_no_overflow [OF assms i] show "x \<in> {0..fsize - 1}"
    by (simp add: range_bytes_def)
next
  fix x assume x: "x \<in> {0..fsize - 1}"
  define p where "p = fsize div workers"
  have p0: "0 \<le> p" unfolding p_def using assms(1,2) by (rule part_nonneg)
  define i where "i = (if p = 0 then workers - 1 else min (x div p) (workers - 1))"
  have xd: "p \<noteq> 0 \<Longrightarrow> 0 \<le> x div p"
    using p0 x by (simp add: pos_imp_zdiv_nonneg_iff)
  have i: "0 \<le> i" "i < workers"
    using assms xd by (auto simp: i_def)
  have "x \<in> range_bytes (chunkRange fsize workers i)"
  proof (cases "i = workers - 1")
    case True
    have "(workers - 1) * p \<le> x"
    proof (cases "p = 0")
      case True then show ?thesis using x by simp
    next
      case False
      with p0 have pp: "0 < p" by simp
      from False True have "workers - 1 \<le> x div p" by (simp add: i_def split: if_splits)
      then have "(workers - 1) * p \<le> (x div p) * p" using p0 by (rule mult_right_mono)
      also have "\<dots> \<le> x" using pp by (rule div_times_le)
      finally show ?thesis .
    qed
    then show ?thesis using True x assms by (simp add: chunkRange_last range_bytes_def p_def)
  next
    case False
    then have ne: "p \<noteq> 0" and ix: "i = x div p" by (auto simp: i_def split: if_splits)
    with p0 have pp: "0 < p" by simp
    have "i * p \<le> x" unfolding ix using pp by (rule div_times_le)
    moreover have "x < i * p + p" unfolding ix using pp by (rule div_times_le)
    ultimately show ?thesis using False assms by (simp add: chunkRange_mid range_bytes_def p_def)
  qed
  then show "x \<in> (\<Union>r \<in> set (chunkPlan fsize workers). range_bytes r)"
    using i by (auto simp: set_chunkPlan)
qed

lemma chunkPlan_small:
  assumes "0 \<le> fsize" "1 \<le> workers" "fsize < workers"
  shows "chunkPlan fsize workers = replicate (nat workers - 1) (0, - 1) @ [(0, fsize - 1)]"
proof (rule nth_equalityI)
  show "length (chunkPlan fsize workers) = length (replicate (nat workers - 1) (0, - 1) @ [(0, fsize - 1)])"
    using assms by (simp add: chunkPlan_length)
next
  fix i assume "i < length (chunkPlan fsize workers)"
  then have i: "i < nat workers" by (simp add: chunkPlan_length)
  have p: "fsize div workers = 0" using assms by simp
  show "chunkPlan fsize workers ! i = (replicate (nat workers - 1) (0, - 1) @ [(0, fsize - 1)]) ! i"
  proof (cases "int i = workers - 1")
    case True
    then have "i = nat workers - 1" by simp
    then show ?thesis using True [symmetric] i assms(1,2) p chunkRange_last [of fsize workers]
      by (simp add: chunkPlan_nth nth_append)
  next
    case False
    then have "i < nat workers - 1" using i by auto
    then show ?thesis using False i assms p
      by (simp add: chunkPlan_nth chunkRange_mid nth_append)
  qed
qed


subsection \<open>Facts about the trace\<close>

lemma trace_emit [simp]: "trace (emit ev w) = trace w @ [ev]"
  and tick_emit [simp]: "tick (emit ev w) = Suc (tick w)"
  and files_emit [simp]: "files (emit ev w) = files w"
  by (simp_all add: emit_def)

lemma grows_iff: "grows w w' \<longleftrightarrow> (\<exists>evs. trace w' = trace w @ evs)"
  by (auto simp: grows_def events_since_def)

lemma grows_refl [simp]: "grows w w"
  by (simp add: grows_iff)

lemma grows_trans: "grows w w1 \<Longrightarrow> grows w1 w2 \<Longrightarrow> grows w w2"
  by (auto simp: grows_iff)

lemma grows_emit [simp]: "grows w (emit ev w)"
  by (simp add: grows_iff)

lemma grows_files [simp]: "grows w (w'\<lparr>files := f\<rparr>) = grows w w'"
  by (simp add: grows_iff)

lemma events_since_self [simp]: "events_since w w = []"
  by (simp add: events_since_def)

lemma events_since_files [simp]: "events_since w (w'\<lparr>files := f\<rparr>) = events_since w w'"
  by (simp add: events_since_def)

lemma events_since_emit [simp]: "events_since w (emit ev w) = [ev]"
  by (simp add: events_since_def)

lemma events_since_append:
  "grows w w1 \<Longrightarrow> grows w1 w2 \<Longrightarrow> events_since w w2 = events_since w w1 @ events_since w1 w2"
  by (auto simp: grows_iff events_since_def)

lemma events_since_emit_after:
  "grows w w1 \<Longrightarrow> events_since w (emit ev w1) = events_since w w1 @ [ev]"
  using events_since_append [of w w1 "emit ev w1"] by simp

lemma grows_emit_after: "grows w w1 \<Longrightarrow> grows w (emit ev w1)"
  by (rule grows_trans [OF _ grows_emit])

text \<open>The primitives: each puts exactly its own call on the trace.\<close>

lemma client_Do_events [simp]:
  "events_since w (snd (client_Do e req w)) = [Http req]"
  "grows w (snd (client_Do e req w))"
  "files (snd (client_Do e req w)) = files w"
  "tick (snd (client_Do e req w)) = Suc (tick w)"
  "fst (client_Do e req w) = http e (tick w) req"
  by (simp_all add: client_Do_def)

lemma os_Create_events [simp]:
  "events_since w (snd (os_Create e path w)) = [Fs (OpCreate path)]"
  "grows w (snd (os_Create e path w))"
  "tick (snd (os_Create e path w)) = Suc (tick w)"
  by (simp_all add: os_Create_def Let_def split: option.split)

lemma file_Truncate_events [simp]:
  "events_since w (snd (file_Truncate e path n w)) = [Fs (OpTruncate path n)]"
  "grows w (snd (file_Truncate e path n w))"
  "tick (snd (file_Truncate e path n w)) = Suc (tick w)"
  by (simp_all add: file_Truncate_def Let_def split: option.split)

lemma os_OpenFile_events [simp]:
  "events_since w (snd (os_OpenFile e path w)) = [Fs (OpOpen path)]"
  "grows w (snd (os_OpenFile e path w))"
  "files (snd (os_OpenFile e path w)) = files w"
  "tick (snd (os_OpenFile e path w)) = Suc (tick w)"
  by (simp_all add: os_OpenFile_def Let_def)

lemma file_Seek_events [simp]:
  "events_since w (snd (file_Seek e path off w)) = [Fs (OpSeek path off)]"
  "grows w (snd (file_Seek e path off w))"
  "files (snd (file_Seek e path off w)) = files w"
  "tick (snd (file_Seek e path off w)) = Suc (tick w)"
  by (simp_all add: file_Seek_def Let_def)

lemma file_Write_events [simp]:
  "events_since w (snd (file_Write e path pos buf w)) = [Fs (OpWrite path pos buf)]"
  "grows w (snd (file_Write e path pos buf w))"
  "tick (snd (file_Write e path pos buf w)) = Suc (tick w)"
  by (simp_all add: file_Write_def Let_def split: option.split)

text \<open>The read loop only writes to its file, at or after its position, and reports progress.\<close>

lemma body_event_mono: "pos \<le> pos' \<Longrightarrow> body_event path pos' ev \<Longrightarrow> body_event path pos ev"
  by (auto simp: body_event_def split: event.splits fs_op.splits)

lemma readLoop_events:
  "grows w (snd (readLoop e path pos body w))
   \<and> list_all (body_event path pos) (events_since w (snd (readLoop e path pos body w)))"
proof (induction body arbitrary: pos w)
  case Nil
  show ?case by simp
next
  case (Cons r rest)
  obtain buf err where r: "r = (buf, err)" by (cases r)
  define wr where "wr = file_Write e path pos buf w"
  define w1 where "w1 = (if buf = [] then w else if fst wr = None then emit (BarAdd (length buf)) (snd wr) else snd wr)"
  have g1: "grows w w1"
    by (simp add: w1_def wr_def grows_emit_after)
  have e1: "list_all (body_event path pos) (events_since w w1)"
    by (simp add: w1_def wr_def events_since_emit_after body_event_def)
  have step: "readLoop e path pos (r # rest) w = (None, w1) \<or>
      (\<exists>x. readLoop e path pos (r # rest) w = (Some x, w1)) \<or>
      readLoop e path pos (r # rest) w = readLoop e path (pos + length buf) rest w1"
    by (cases "fst wr"; cases err)
      (auto simp: r w1_def wr_def Let_def split: prod.splits option.splits)
  from Cons.IH [of w1 "pos + length buf"]
  have g2: "grows w1 (snd (readLoop e path (pos + length buf) rest w1))"
    and e2: "list_all (body_event path (pos + length buf))
      (events_since w1 (snd (readLoop e path (pos + length buf) rest w1)))"
    by simp_all
  from e2 have e2': "list_all (body_event path pos)
      (events_since w1 (snd (readLoop e path (pos + length buf) rest w1)))"
    by (auto simp: list_all_iff intro: body_event_mono [of pos "pos + length buf"])
  from step show ?case
  proof (elim disjE exE)
    assume "readLoop e path pos (r # rest) w = readLoop e path (pos + length buf) rest w1"
    then show ?thesis
      using g1 g2 e1 e2' by (simp add: events_since_append [OF g1 g2] grows_trans [OF g1 g2])
  qed (use g1 e1 in simp_all)
qed

subsection \<open>Facts about the chunk fetcher and the retry loop\<close>

lemma is_request_simps [simp]:
  "is_request (Http r)" "\<not> is_request (Fs op)" "\<not> is_request (BarAdd n)"
  "\<not> is_request (Sleep d)" "\<not> is_request (PrintRetrying a b k)" "\<not> is_request (PrintFailed a b k)"
  by (simp_all add: is_request_def)

lemma is_sleep_simps [simp]:
  "\<not> is_sleep (Http r)" "\<not> is_sleep (Fs op)" "\<not> is_sleep (BarAdd n)"
  "is_sleep (Sleep d)" "\<not> is_sleep (PrintRetrying a b k)" "\<not> is_sleep (PrintFailed a b k)"
  by (simp_all add: is_sleep_def)

lemma is_fs_simps [simp]:
  "\<not> is_fs (Http r)" "is_fs (Fs op)" "\<not> is_fs (BarAdd n)"
  "\<not> is_fs (Sleep d)" "\<not> is_fs (PrintRetrying a b k)" "\<not> is_fs (PrintFailed a b k)"
  by (simp_all add: is_fs_def)

lemma chunk_event_simps [simp]:
  "chunk_event url out start endv (Sleep d) = (d = retryBackoff)"
  "chunk_event url out start endv (PrintRetrying a b k) = (a = start \<and> b = endv)"
  "chunk_event url out start endv (PrintFailed a b k) = (a = start \<and> b = endv \<and> k = maxRetries)"
  by (simp_all add: chunk_event_def)

lemma body_event_part:
  "body_event out (nat start) ev \<Longrightarrow> part_event url out start endv ev"
  by (auto simp: body_event_def part_event_def split: event.splits fs_op.splits)

lemma body_event_no_request: "body_event path pos ev \<Longrightarrow> \<not> is_request ev"
  by (auto simp: body_event_def is_request_def split: event.splits)

lemma body_events_no_request: "list_all (body_event path pos) evs \<Longrightarrow> filter is_request evs = []"
  by (induction evs) (auto dest: body_event_no_request)

lemma part_event_no_sleep: "part_event url out start endv ev \<Longrightarrow> \<not> is_sleep ev"
  by (auto simp: part_event_def is_sleep_def split: event.splits)

lemma part_events_no_sleep:
  "list_all (part_event url out start endv) evs \<Longrightarrow> filter is_sleep evs = []"
  by (induction evs) (auto dest: part_event_no_sleep)

lemma part_event_chunk:
  "part_event url out start endv ev \<Longrightarrow> chunk_event url out start endv ev"
  by (auto simp: chunk_event_def part_event_def split: event.splits)

lemma downloadPart_events:
  "grows w (snd (downloadPart e url out start endv w))
   \<and> list_all (part_event url out start endv) (events_since w (snd (downloadPart e url out start endv w)))
   \<and> length (filter is_request (events_since w (snd (downloadPart e url out start endv w)))) \<le> 1"
proof (cases "url_ok e url")
  case False
  then show ?thesis by (simp add: downloadPart_def NewRequest_def)
next
  case True
  define rq where "rq = Get url (Some (start, endv))"
  define w1 where "w1 = snd (client_Do e rq w)"
  define w2 where "w2 = snd (os_OpenFile e out w1)"
  define w3 where "w3 = snd (file_Seek e out start w2)"
  have g1: "grows w w1" and e1: "events_since w w1 = [Http rq]"
    by (simp_all add: w1_def)
  have g2: "grows w w2" and e2: "events_since w w2 = [Http rq, Fs (OpOpen out)]"
    using events_since_append [OF g1, of w2] grows_trans [OF g1, of w2]
    by (simp_all add: w2_def e1)
  have g3: "grows w w3"
    and e3: "events_since w w3 = [Http rq, Fs (OpOpen out), Fs (OpSeek out start)]"
    using events_since_append [OF g2, of w3] grows_trans [OF g2, of w3]
    by (simp_all add: w3_def e2)
  have pe: "part_event url out start endv (Http rq)"
    "part_event url out start endv (Fs (OpOpen out))"
    "part_event url out start endv (Fs (OpSeek out start))"
    by (simp_all add: part_event_def rq_def)
  have rqs: "is_request (Http rq)" "\<not> is_request (Fs (OpOpen out))"
    "\<not> is_request (Fs (OpSeek out start))"
    by simp_all
  have cd: "client_Do e rq w = (http e (tick w) rq, w1)"
    by (simp add: client_Do_def w1_def)
  obtain r2 where op: "os_OpenFile e out w1 = (r2, w2)"
    by (cases "os_OpenFile e out w1") (simp add: w2_def)
  obtain r3 where sk: "file_Seek e out start w2 = (r3, w3)"
    by (cases "file_Seek e out start w2") (simp add: w3_def)
  consider (a) "snd (downloadPart e url out start endv w) = w1"
    | (b) "snd (downloadPart e url out start endv w) = w2"
    | (c) "snd (downloadPart e url out start endv w) = w3"
    | (d) body where "snd (downloadPart e url out start endv w) = snd (readLoop e out (nat start) body w3)"
  proof (cases "http e (tick w) rq")
    case (Inl err)
    then have "snd (downloadPart e url out start endv w) = w1"
      using True cd by (simp add: downloadPart_def NewRequest_def rq_def)
    then show ?thesis by (rule a)
  next
    case (Inr resp)
    show ?thesis
    proof (cases "StatusCode resp \<noteq> 206")
      case True
      then have "snd (downloadPart e url out start endv w) = w1"
        using \<open>url_ok e url\<close> cd Inr by (simp add: downloadPart_def NewRequest_def rq_def)
      then show ?thesis by (rule a)
    next
      case False
      then have dp: "downloadPart e url out start endv w =
          (case r2 of Some err \<Rightarrow> (Some err, w2)
           | None \<Rightarrow> (case r3 of Some err \<Rightarrow> (Some err, w3)
               | None \<Rightarrow> readLoop e out (nat start) (Body resp) w3))"
        using \<open>url_ok e url\<close> cd Inr op sk
        by (simp add: downloadPart_def NewRequest_def rq_def split: option.split)
      show ?thesis
      proof (cases r2)
        case (Some err)
        then show ?thesis using dp by (intro b) simp
      next
        case None
        show ?thesis
        proof (cases r3)
          case (Some err)
          then show ?thesis using dp None by (intro c) simp
        next
          case n3: None
          then show ?thesis using dp None by (intro d [of "Body resp"]) simp
        qed
      qed
    qed
  qed
  then show ?thesis
  proof cases
    case a then show ?thesis using g1 e1 pe rqs by simp
  next
    case b then show ?thesis using g2 e2 pe rqs by simp
  next
    case c then show ?thesis using g3 e3 pe rqs by simp
  next
    case d
    define w4 where "w4 = snd (readLoop e out (nat start) body w3)"
    from readLoop_events [of w3 e out "nat start" body]
    have g4: "grows w3 w4" and e4: "list_all (body_event out (nat start)) (events_since w3 w4)"
      by (simp_all add: w4_def)
    from e4 have p4: "list_all (part_event url out start endv) (events_since w3 w4)"
      by (auto simp: list_all_iff intro: body_event_part)
    have "grows w w4" using g3 g4 by (rule grows_trans)
    moreover have "events_since w w4 = events_since w w3 @ events_since w3 w4"
      using g3 g4 by (rule events_since_append)
    ultimately show ?thesis
      using d e3 pe rqs p4 body_events_no_request [OF e4] by (simp add: w4_def)
  qed
qed

lemma retryLoop_supervised:
  "0 \<le> retries \<Longrightarrow> retries \<le> maxRetries \<Longrightarrow>
   retryLoop e url out start endv retries w =
     supervised (downloadPart e url out start endv)
       (\<lambda>k w'. emit (Sleep retryBackoff) (emit (PrintRetrying start endv k) w'))
       (emit (PrintFailed start endv maxRetries))
       (nat (maxRetries - retries)) (retries + 1) w"
proof (induction e url out start endv retries w rule: retryLoop.induct)
  case (1 e url out start endv retries w)
  obtain r w1 where dp: "downloadPart e url out start endv w = (r, w1)"
    by (cases "downloadPart e url out start endv w")
  show ?case
  proof (cases "retries = maxRetries")
    case True
    then show ?thesis using dp
      by (subst retryLoop.simps) (auto simp: Let_def split: option.splits)
  next
    case False
    with "1.prems" have lt: "retries + 1 \<le> maxRetries" by simp
    then obtain n where n: "nat (maxRetries - retries) = Suc n" "nat (maxRetries - (retries + 1)) = n"
      by (metis Suc_nat_eq_nat_zadd1 add.commute diff_add_cancel diff_diff_eq diff_ge_0_iff_ge)
    show ?thesis
    proof (cases r)
      case None
      then show ?thesis using dp n by (subst retryLoop.simps) (simp add: Let_def)
    next
      case (Some err)
      have "retryLoop e url out start endv retries w =
          retryLoop e url out start endv (retries + 1)
            (emit (Sleep retryBackoff) (emit (PrintRetrying start endv (retries + 1)) w1))"
        using dp Some lt by (subst retryLoop.simps) (simp add: Let_def)
      also have "\<dots> = supervised (downloadPart e url out start endv)
          (\<lambda>k w'. emit (Sleep retryBackoff) (emit (PrintRetrying start endv k) w'))
          (emit (PrintFailed start endv maxRetries))
          n (retries + 1 + 1) (emit (Sleep retryBackoff) (emit (PrintRetrying start endv (retries + 1)) w1))"
        using "1.IH" [of "downloadPart e url out start endv w"] dp Some lt "1.prems" n
        by simp
      finally show ?thesis using dp Some n by simp
    qed
  qed
qed

lemma retryLoop_events:
  "0 \<le> retries \<Longrightarrow> retries \<le> maxRetries \<Longrightarrow>
   grows w (retryLoop e url out start endv retries w)
   \<and> list_all (chunk_event url out start endv) (events_since w (retryLoop e url out start endv retries w))
   \<and> length (filter is_request (events_since w (retryLoop e url out start endv retries w)))
        \<le> nat (maxRetries + 1 - retries)
   \<and> length (filter is_sleep (events_since w (retryLoop e url out start endv retries w)))
        \<le> nat (maxRetries - retries)"
proof (induction e url out start endv retries w rule: retryLoop.induct)
  case (1 e url out start endv retries w)
  define r where "r = downloadPart e url out start endv w"
  define w1 where "w1 = snd r"
  from downloadPart_events [of w e url out start endv]
  have g1: "grows w w1"
    and p1: "list_all (part_event url out start endv) (events_since w w1)"
    and n1: "length (filter is_request (events_since w w1)) \<le> 1"
    by (simp_all add: w1_def r_def)
  from p1 have c1: "list_all (chunk_event url out start endv) (events_since w w1)"
    by (auto simp: list_all_iff intro: part_event_chunk)
  have s1: "filter is_sleep (events_since w w1) = []"
    using p1 by (rule part_events_no_sleep)
  show ?case
  proof (cases "fst r = None")
    case True
    then have "retryLoop e url out start endv retries w = w1"
      by (subst retryLoop.simps) (simp add: Let_def r_def w1_def)
    then show ?thesis using g1 c1 n1 s1 "1.prems" by simp
  next
    case False
    show ?thesis
    proof (cases "retries + 1 > maxRetries")
      case True
      with False have eq: "retryLoop e url out start endv retries w
          = emit (PrintFailed start endv maxRetries) w1"
        by (subst retryLoop.simps) (simp add: Let_def r_def w1_def)
      show ?thesis
        unfolding eq using g1 c1 n1 s1 "1.prems"
        by (simp add: events_since_emit_after grows_emit_after)
    next
      case nt: False
      define w2 where "w2 = emit (Sleep retryBackoff) (emit (PrintRetrying start endv (retries + 1)) w1)"
      define w3 where "w3 = retryLoop e url out start endv (retries + 1) w2"
      from False nt have eq: "retryLoop e url out start endv retries w = w3"
        by (subst retryLoop.simps) (auto simp: Let_def r_def w1_def w2_def w3_def)
      have g2: "grows w w2"
        unfolding w2_def using g1 by (intro grows_emit_after)
      have e2: "events_since w w2 = events_since w w1 @ [PrintRetrying start endv (retries + 1), Sleep retryBackoff]"
        unfolding w2_def using g1 by (simp add: events_since_emit_after grows_emit_after)
      from "1.IH" [OF r_def False nt] nt "1.prems"
      have g3: "grows w2 w3"
        and c3: "list_all (chunk_event url out start endv) (events_since w2 w3)"
        and n3: "length (filter is_request (events_since w2 w3)) \<le> nat (maxRetries + 1 - (retries + 1))"
        and s3: "length (filter is_sleep (events_since w2 w3)) \<le> nat (maxRetries - (retries + 1))"
        by (simp_all add: w2_def w3_def w1_def)
      have e3: "events_since w w3 = events_since w w2 @ events_since w2 w3"
        using g2 g3 by (rule events_since_append)
      have "grows w w3" using g2 g3 by (rule grows_trans)
      moreover have "list_all (chunk_event url out start endv) (events_since w w3)"
        using c1 c3 by (simp add: e3 e2)
      moreover have "length (filter is_request (events_since w w3)) \<le> nat (maxRetries + 1 - retries)"
        using n1 n3 nt "1.prems" by (simp add: e3 e2)
      moreover have "length (filter is_sleep (events_since w w3)) \<le> nat (maxRetries - retries)"
        using s1 s3 nt "1.prems" by (simp add: e3 e2)
      ultimately show ?thesis unfolding eq by simp
    qed
  qed
qed

subsection \<open>Facts about the coordinator and the fallback\<close>

lemma is_unranged_get_simps [simp]:
  "is_unranged_get (Http (Get u rg)) = (rg = None)" "\<not> is_unranged_get (Http (Head u))"
  "\<not> is_unranged_get (Fs op)" "\<not> is_unranged_get (BarAdd n)"
  "\<not> is_unranged_get (Sleep d)" "\<not> is_unranged_get (PrintRetrying a b k)"
  "\<not> is_unranged_get (PrintFailed a b k)"
  by (simp_all add: is_unranged_get_def)

lemma chunk_event_ranged: "chunk_event url out start endv ev \<Longrightarrow> \<not> is_unranged_get ev"
  by (auto simp: chunk_event_def part_event_def is_unranged_get_def split: event.splits request.splits)

lemma chunk_events_ranged:
  "list_all (chunk_event url out start endv) evs \<Longrightarrow> filter is_unranged_get evs = []"
  by (induction evs) (auto dest: chunk_event_ranged)

lemma body_event_not_sleep: "body_event path pos ev \<Longrightarrow> \<not> is_sleep ev"
  by (auto simp: body_event_def is_sleep_def split: event.splits)

lemma body_events_no_sleep: "list_all (body_event path pos) evs \<Longrightarrow> filter is_sleep evs = []"
  by (induction evs) (auto dest: body_event_not_sleep)

lemma runChunks_events:
  "grows w (runChunks e url out plan w)
   \<and> filter is_unranged_get (events_since w (runChunks e url out plan w)) = []"
proof (induction plan arbitrary: w)
  case Nil
  show ?case by (simp add: runChunks_def)
next
  case (Cons r plan)
  define w1 where "w1 = retryLoop e url out (fst r) (snd r) 0 w"
  have m: "(0::int) \<le> 0" "0 \<le> maxRetries" by (simp_all add: maxRetries_def)
  from retryLoop_events [OF m, of w e url out "fst r" "snd r"]
  have g1: "grows w w1" and c1: "list_all (chunk_event url out (fst r) (snd r)) (events_since w w1)"
    by (simp_all add: w1_def)
  have eq: "runChunks e url out (r # plan) w = runChunks e url out plan w1"
    by (simp add: runChunks_def w1_def)
  from Cons.IH [of w1] have g2: "grows w1 (runChunks e url out plan w1)"
    and u2: "filter is_unranged_get (events_since w1 (runChunks e url out plan w1)) = []"
    by simp_all
  show ?case
    unfolding eq using grows_trans [OF g1 g2] events_since_append [OF g1 g2] u2 chunk_events_ranged [OF c1]
    by simp
qed

lemma rangedDownload_events:
  "grows w (snd (rangedDownload e url out fsize wo w))
   \<and> filter is_unranged_get (events_since w (snd (rangedDownload e url out fsize wo w))) = []"
proof -
  define w1 where "w1 = snd (os_Create e out w)"
  define w2 where "w2 = snd (file_Truncate e out fsize w1)"
  define w3 where "w3 = runChunks e url out (chunkPlan fsize (resolveWorkers fsize wo)) w2"
  have g1: "grows w w1" and e1: "events_since w w1 = [Fs (OpCreate out)]"
    by (simp_all add: w1_def)
  have g2: "grows w w2" and e2: "events_since w w2 = [Fs (OpCreate out), Fs (OpTruncate out fsize)]"
    using events_since_append [OF g1, of w2] grows_trans [OF g1, of w2]
    by (simp_all add: w2_def e1)
  from runChunks_events [of w2 e url out]
  have g3: "grows w2 w3" and u3: "filter is_unranged_get (events_since w2 w3) = []"
    by (simp_all add: w3_def)
  have g3': "grows w w3" using g2 g3 by (rule grows_trans)
  have e3: "events_since w w3 = events_since w w2 @ events_since w2 w3"
    using g2 g3 by (rule events_since_append)
  have "snd (rangedDownload e url out fsize wo w) = w1
      \<or> snd (rangedDownload e url out fsize wo w) = w2
      \<or> snd (rangedDownload e url out fsize wo w) = w3"
    by (cases "os_Create e out w"; cases "file_Truncate e out fsize w1")
      (auto simp: rangedDownload_def Let_def w1_def w2_def w3_def split: option.splits)
  then show ?thesis
    using g1 e1 g2 e2 g3' e3 u3 by auto
qed

lemma io_Copy_events:
  "grows w (snd (io_Copy e path body w))
   \<and> filter is_request (events_since w (snd (io_Copy e path body w))) = []
   \<and> filter is_sleep (events_since w (snd (io_Copy e path body w))) = []"
  using readLoop_events [of w e path 0 body]
  by (auto simp: io_Copy_def intro: body_events_no_request body_events_no_sleep)

lemma singleDownload_cases:
  "singleDownload e url out w =
     (case http e (tick w) (Get url None) of
        Inl err \<Rightarrow> (Some err, emit (Http (Get url None)) w)
      | Inr resp \<Rightarrow>
          if StatusCode resp \<noteq> 200
          then (Some (StatusError (StatusCode resp)), emit (Http (Get url None)) w)
          else (case fs_fault e (Suc (tick w)) (OpCreate out) of
                  Some err \<Rightarrow> (Some err, emit (Fs (OpCreate out)) (emit (Http (Get url None)) w))
                | None \<Rightarrow>
                    io_Copy e out (Body resp)
                      ((emit (Fs (OpCreate out)) (emit (Http (Get url None)) w))
                         \<lparr>files := (files w)(out := Some [])\<rparr>)))"
  by (simp add: singleDownload_def client_Do_def os_Create_def Let_def
      split: sum.split option.split)

lemma singleDownload_events:
  "grows w (snd (singleDownload e url out w))
   \<and> filter is_request (events_since w (snd (singleDownload e url out w))) = [Http (Get url None)]
   \<and> filter is_sleep (events_since w (snd (singleDownload e url out w))) = []"
proof -
  define w1 where "w1 = emit (Http (Get url None)) w"
  define w2 where "w2 = emit (Fs (OpCreate out)) w1"
  define w2' where "w2' = w2\<lparr>files := (files w)(out := Some [])\<rparr>"
  have g1: "grows w w1" and e1: "events_since w w1 = [Http (Get url None)]"
    by (simp_all add: w1_def)
  have g2: "grows w w2" and e2: "events_since w w2 = [Http (Get url None), Fs (OpCreate out)]"
    by (simp_all add: w2_def w1_def grows_emit_after events_since_emit_after)
  have g2': "grows w w2'" and e2': "events_since w w2' = [Http (Get url None), Fs (OpCreate out)]"
    using g2 e2 by (simp_all add: w2'_def)
  have "snd (singleDownload e url out w) = w1 \<or> snd (singleDownload e url out w) = w2
      \<or> (\<exists>body. snd (singleDownload e url out w) = snd (io_Copy e out body w2'))"
    by (auto simp: singleDownload_cases w1_def w2_def w2'_def split: sum.splits option.splits)
  then show ?thesis
  proof (elim disjE exE)
    fix body
    assume s: "snd (singleDownload e url out w) = snd (io_Copy e out body w2')"
    from io_Copy_events [of w2' e out body]
    have g3: "grows w2' (snd (io_Copy e out body w2'))"
      and r3: "filter is_request (events_since w2' (snd (io_Copy e out body w2'))) = []"
      and s3: "filter is_sleep (events_since w2' (snd (io_Copy e out body w2'))) = []"
      by simp_all
    show ?thesis
      unfolding s using grows_trans [OF g2' g3] events_since_append [OF g2' g3] e2' r3 s3
      by simp
  qed (use g1 e1 g2 e2 in simp_all)
qed

lemma verifyPartialSupport_cases:
  "verifyPartialSupport e url w =
     (if \<not> url_ok e url then (Inl UrlError, w)
      else case http e (tick w) (Get url (Some (0, 1))) of
             Inl err \<Rightarrow> (Inl err, emit (Http (Get url (Some (0, 1)))) w)
           | Inr resp \<Rightarrow> (Inr (StatusCode resp = 206), emit (Http (Get url (Some (0, 1)))) w))"
  by (simp add: verifyPartialSupport_def NewRequest_def client_Do_def split: sum.split)

lemma Atoi_empty [simp]: "Atoi [] = None"
  by (simp add: Atoi_def)

text \<open>\<^verbatim>\<open>downloadFile\<close> once the metadata request has passed.\<close>

lemma downloadFile_probed:
  assumes "http e (tick w) (Head url) = Inr hresp" and "StatusCode hresp = 200"
    and "Atoi (Header_Get hresp ''Content-Length'') = Some fsize"
  shows "downloadFile e url out wo w =
     (if Header_Get hresp ''Accept-Ranges'' \<noteq> ''bytes''
      then singleDownload e url out (emit (Http (Head url)) w)
      else case verifyPartialSupport e url (emit (Http (Head url)) w) of
             (Inl err, w2) \<Rightarrow> (Some (VerifyError err), w2)
           | (Inr partialSupported, w2) \<Rightarrow>
               if \<not> partialSupported then singleDownload e url out w2
               else rangedDownload e url out fsize wo w2)"
proof -
  have "Header_Get hresp ''Content-Length'' \<noteq> []"
    using assms(3) by auto
  then show ?thesis
    using assms by (simp add: downloadFile_def client_Do_def Let_def)
qed

subsection \<open>Facts about positioned writes and the read loop\<close>

lemma write_at_nil: "pos \<le> length c \<Longrightarrow> write_at c pos [] = c"
  by (simp add: write_at_def)

lemma length_write_at: "pos \<le> length c \<Longrightarrow> length (write_at c pos buf) = max (length c) (pos + length buf)"
  by (auto simp: write_at_def)

lemma write_at_append:
  assumes "pos \<le> length c"
  shows "write_at (write_at c pos a) (pos + length a) b = write_at c pos (a @ b)"
proof -
  have 1: "write_at c pos a = take pos c @ a @ drop (pos + length a) c"
    using assms by (simp add: write_at_def)
  have 2: "pos + length a \<le> length (write_at c pos a)"
    using assms by (simp add: length_write_at)
  have "write_at (write_at c pos a) (pos + length a) b =
      take (pos + length a) (write_at c pos a) @ b @ drop (pos + length a + length b) (write_at c pos a)"
    using 2 by (simp add: write_at_def)
  also have "take (pos + length a) (write_at c pos a) = take pos c @ a"
    using assms by (simp add: 1)
  also have "drop (pos + length a + length b) (write_at c pos a) = drop (pos + length a + length b) c"
    using assms by (simp add: 1 add.commute add.left_commute)
  finally show ?thesis using assms by (simp add: write_at_def add.assoc)
qed

lemma readLoop_clean:
  assumes "\<forall>t op. fs_fault e t op = None"
  shows "ends_in_EOF body \<Longrightarrow> files w path = Some c \<Longrightarrow> pos \<le> length c \<Longrightarrow>
    fst (readLoop e path pos body w) = None
    \<and> files (snd (readLoop e path pos body w)) = (files w)(path := Some (write_at c pos (received body)))"
proof (induction body arbitrary: pos w c)
  case Nil
  then show ?case by (auto simp: write_at_nil)
next
  case (Cons r rest)
  obtain buf err where r: "r = (buf, err)" by (cases r)
  define w1 where "w1 = (if buf = [] then w else emit (BarAdd (length buf)) (snd (file_Write e path pos buf w)))"
  define c1 where "c1 = write_at c pos buf"
  have f1: "files w1 = (files w)(path := Some c1)"
    using assms Cons.prems
    by (auto simp: w1_def c1_def file_Write_def Let_def content_of_def write_at_nil)
  have p1: "pos + length buf \<le> length c1"
    using Cons.prems by (simp add: c1_def length_write_at)
  show ?case
  proof (cases err)
    case (Some rerr)
    with Cons.prems r have "rerr = EOF" by simp
    then have "readLoop e path pos (r # rest) w = (None, w1)"
      using assms Some r by (simp add: w1_def file_Write_def Let_def)
    then have "fst (readLoop e path pos (r # rest) w) = None"
      and "snd (readLoop e path pos (r # rest) w) = w1" by simp_all
    then show ?thesis using f1 Some r by (simp add: c1_def)
  next
    case None
    then have eq: "readLoop e path pos (r # rest) w = readLoop e path (pos + length buf) rest w1"
      using assms r by (simp add: w1_def file_Write_def Let_def)
    have "ends_in_EOF rest" using Cons.prems None r by simp
    moreover have "files w1 path = Some c1" by (simp add: f1)
    ultimately have "fst (readLoop e path (pos + length buf) rest w1) = None
      \<and> files (snd (readLoop e path (pos + length buf) rest w1))
          = (files w1)(path := Some (write_at c1 (pos + length buf) (received rest)))"
      using p1 by (rule Cons.IH)
    then show ?thesis
      unfolding eq using Cons.prems by (simp add: f1 r None c1_def write_at_append)
  qed
qed

subsection \<open>Facts about the fallback and the paths of the coordinator\<close>

lemma unranged_among_requests:
  "filter is_unranged_get evs = filter is_unranged_get (filter is_request evs)"
  by (induction evs) (auto simp: is_unranged_get_def is_request_def split: event.splits)

lemma singleDownload_unranged:
  "filter is_unranged_get (events_since w (snd (singleDownload e url out w))) = [Http (Get url None)]"
  using singleDownload_events [of w e url out]
  by (subst unranged_among_requests) simp

lemma singleDownload_clean:
  assumes "http e (tick w) (Get url None) = Inr resp" and "StatusCode resp = 200"
    and "\<forall>t op. fs_fault e t op = None" and "ends_in_EOF (Body resp)"
  shows "fst (singleDownload e url out w) = None
    \<and> files (snd (singleDownload e url out w)) out = Some (received (Body resp))"
proof -
  define w2 where "w2 = (emit (Fs (OpCreate out)) (emit (Http (Get url None)) w))
                         \<lparr>files := (files w)(out := Some [])\<rparr>"
  have sd: "singleDownload e url out w = readLoop e out 0 (Body resp) w2"
    using assms(1-3) by (simp add: singleDownload_cases io_Copy_def w2_def)
  have "files w2 out = Some []" by (simp add: w2_def)
  with assms(4) have "fst (readLoop e out 0 (Body resp) w2) = None
      \<and> files (snd (readLoop e out 0 (Body resp) w2))
          = (files w2)(out := Some (write_at [] 0 (received (Body resp))))"
    by (rule readLoop_clean [OF assms(3)]) simp
  then show ?thesis by (simp add: sd write_at_def)
qed

text \<open>The paths of \<^verbatim>\<open>downloadFile\<close> after a good metadata answer.\<close>

lemma downloadFile_paths:
  assumes "http e (tick w) (Head url) = Inr hresp" and "StatusCode hresp = 200"
    and "Atoi (Header_Get hresp ''Content-Length'') = Some fsize"
  shows "Header_Get hresp ''Accept-Ranges'' \<noteq> ''bytes'' \<Longrightarrow>
           downloadFile e url out wo w = singleDownload e url out (emit (Http (Head url)) w)"
    and "Header_Get hresp ''Accept-Ranges'' = ''bytes'' \<Longrightarrow> \<not> url_ok e url \<Longrightarrow>
           downloadFile e url out wo w = (Some (VerifyError UrlError), emit (Http (Head url)) w)"
    and "Header_Get hresp ''Accept-Ranges'' = ''bytes'' \<Longrightarrow> url_ok e url \<Longrightarrow>
         http e (Suc (tick w)) (Get url (Some (0, 1))) = Inl err \<Longrightarrow>
           downloadFile e url out wo w
             = (Some (VerifyError err), emit (Http (Get url (Some (0, 1)))) (emit (Http (Head url)) w))"
    and "Header_Get hresp ''Accept-Ranges'' = ''bytes'' \<Longrightarrow> url_ok e url \<Longrightarrow>
         http e (Suc (tick w)) (Get url (Some (0, 1))) = Inr presp \<Longrightarrow> StatusCode presp \<noteq> 206 \<Longrightarrow>
           downloadFile e url out wo w
             = singleDownload e url out (emit (Http (Get url (Some (0, 1)))) (emit (Http (Head url)) w))"
    and "Header_Get hresp ''Accept-Ranges'' = ''bytes'' \<Longrightarrow> url_ok e url \<Longrightarrow>
         http e (Suc (tick w)) (Get url (Some (0, 1))) = Inr presp \<Longrightarrow> StatusCode presp = 206 \<Longrightarrow>
           downloadFile e url out wo w
             = rangedDownload e url out fsize wo
                 (emit (Http (Get url (Some (0, 1)))) (emit (Http (Head url)) w))"
  by (simp_all add: downloadFile_probed [OF assms] verifyPartialSupport_cases)

lemma events_after_head:
  assumes "grows (emit (Http (Head url)) w) w'"
  shows "events_since w w' = Http (Head url) # events_since (emit (Http (Head url)) w) w'"
  using events_since_append [OF grows_emit assms] by simp

lemma events_after_probe:
  assumes "grows (emit (Http (Get url (Some (0, 1)))) (emit (Http (Head url)) w)) w'"
  shows "events_since w w' = Http (Head url) # Http (Get url (Some (0, 1)))
           # events_since (emit (Http (Get url (Some (0, 1)))) (emit (Http (Head url)) w)) w'"
proof -
  have g: "grows w (emit (Http (Get url (Some (0, 1)))) (emit (Http (Head url)) w))"
    by (intro grows_emit_after) simp
  have "events_since w (emit (Http (Get url (Some (0, 1)))) (emit (Http (Head url)) w))
      = [Http (Head url), Http (Get url (Some (0, 1)))]"
    by (simp add: events_since_emit_after)
  then show ?thesis
    using events_since_append [OF g assms] by simp
qed

text \<open>A non-positive override leaves the heuristic in charge.\<close>

lemma rangedDownload_override:
  "wo \<le> 0 \<Longrightarrow> rangedDownload e url out fsize wo w = rangedDownload e url out fsize 0 w"
  by (simp add: rangedDownload_def resolveWorkers_def)

lemma downloadFile_override:
  assumes "wo \<le> 0"
  shows "downloadFile e url out wo w = downloadFile e url out 0 w"
  unfolding downloadFile_def rangedDownload_override [OF assms] ..

subsection \<open>Facts about the requests of the plan\<close>

text \<open>
  Every attempt that can build its request sends it, so the loop of a chunk sends at
  least one request for its range, and the coordinator sends one for every range of the
  plan it was given.
\<close>

lemma grows_member:
  assumes "grows w w1" and "grows w1 w2" and "ev \<in> set (events_since w w1)"
  shows "ev \<in> set (events_since w w2)"
  using events_since_append [OF assms(1,2)] assms(3) by simp

lemma grows_member_later:
  assumes "grows w w1" and "grows w1 w2" and "ev \<in> set (events_since w1 w2)"
  shows "ev \<in> set (events_since w w2)"
  using events_since_append [OF assms(1,2)] assms(3) by simp

lemma downloadPart_after_request:
  assumes "url_ok e url"
  shows "grows (emit (Http (Get url (Some (start, endv)))) w) (snd (downloadPart e url out start endv w))"
proof -
  define rq where "rq = Get url (Some (start, endv))"
  define w1 where "w1 = emit (Http rq) w"
  define w2 where "w2 = snd (os_OpenFile e out w1)"
  define w3 where "w3 = snd (file_Seek e out start w2)"
  have cd: "client_Do e rq w = (http e (tick w) rq, w1)"
    by (simp add: client_Do_def w1_def)
  obtain r2 where op: "os_OpenFile e out w1 = (r2, w2)"
    by (cases "os_OpenFile e out w1") (simp add: w2_def)
  obtain r3 where sk: "file_Seek e out start w2 = (r3, w3)"
    by (cases "file_Seek e out start w2") (simp add: w3_def)
  have g2: "grows w1 w2" by (simp add: w2_def)
  have g3: "grows w1 w3" using g2 by (rule grows_trans) (simp add: w3_def)
  have g4: "grows w1 (snd (readLoop e out (nat start) body w3))" for body
  proof -
    have "grows w3 (snd (readLoop e out (nat start) body w3))"
      using readLoop_events [of w3 e out "nat start" body] by (rule conjunct1)
    with g3 show ?thesis by (rule grows_trans)
  qed
  have "snd (downloadPart e url out start endv w) = w1
      \<or> snd (downloadPart e url out start endv w) = w2
      \<or> snd (downloadPart e url out start endv w) = w3
      \<or> (\<exists>body. snd (downloadPart e url out start endv w) = snd (readLoop e out (nat start) body w3))"
  proof (cases "http e (tick w) rq")
    case (Inl err)
    then show ?thesis
      using assms cd by (simp add: downloadPart_def NewRequest_def rq_def)
  next
    case (Inr resp)
    show ?thesis
    proof (cases "StatusCode resp \<noteq> 206")
      case True
      then show ?thesis
        using assms cd Inr by (simp add: downloadPart_def NewRequest_def rq_def)
    next
      case False
      then have dp: "downloadPart e url out start endv w =
          (case r2 of Some err \<Rightarrow> (Some err, w2)
           | None \<Rightarrow> (case r3 of Some err \<Rightarrow> (Some err, w3)
               | None \<Rightarrow> readLoop e out (nat start) (Body resp) w3))"
        using assms cd Inr op sk
        by (simp add: downloadPart_def NewRequest_def rq_def split: option.split)
      show ?thesis
      proof (cases r2)
        case (Some err)
        then show ?thesis by (simp add: dp)
      next
        case None
        show ?thesis
        proof (cases r3)
          case (Some err)
          then show ?thesis using None by (simp add: dp)
        next
          case n3: None
          have "snd (downloadPart e url out start endv w) = snd (readLoop e out (nat start) (Body resp) w3)"
            using None n3 by (simp add: dp)
          then show ?thesis by blast
        qed
      qed
    qed
  qed
  then have "grows w1 (snd (downloadPart e url out start endv w))"
  proof (elim disjE exE)
    assume "snd (downloadPart e url out start endv w) = w1"
    then show ?thesis by simp
  next
    assume "snd (downloadPart e url out start endv w) = w2"
    then show ?thesis using g2 by simp
  next
    assume "snd (downloadPart e url out start endv w) = w3"
    then show ?thesis using g3 by simp
  next
    fix body
    assume "snd (downloadPart e url out start endv w) = snd (readLoop e out (nat start) body w3)"
    then show ?thesis using g4 [of body] by simp
  qed
  then show ?thesis by (simp only: w1_def rq_def)
qed

lemma retryLoop_sends_request:
  assumes "url_ok e url"
  shows "Http (Get url (Some (start, endv))) \<in> set (events_since w (retryLoop e url out start endv 0 w))"
proof -
  define wq where "wq = emit (Http (Get url (Some (start, endv)))) w"
  define r where "r = downloadPart e url out start endv w"
  define w1 where "w1 = snd r"
  define w2 where "w2 = emit (Sleep retryBackoff) (emit (PrintRetrying start endv (0 + 1)) w1)"
  have gq: "grows wq w1"
    unfolding wq_def w1_def r_def using assms by (rule downloadPart_after_request)
  have m: "(0::int) \<le> 0 + 1" "(0::int) + 1 \<le> maxRetries" by (simp_all add: maxRetries_def)
  have g2: "grows w1 w2" unfolding w2_def by (intro grows_emit_after) simp
  have g3: "grows w2 (retryLoop e url out start endv (0 + 1) w2)"
    using retryLoop_events [OF m, of w2 e url out start endv] by simp
  have eq: "retryLoop e url out start endv 0 w =
      (if fst r = None then w1
       else if 0 + 1 > maxRetries then emit (PrintFailed start endv maxRetries) w1
       else retryLoop e url out start endv (0 + 1) w2)"
    by (subst retryLoop.simps) (simp only: Let_def r_def w1_def w2_def)
  have g23: "grows w1 (retryLoop e url out start endv (0 + 1) w2)"
    using g2 g3 by (rule grows_trans)
  have gf: "grows w1 (emit (PrintFailed start endv maxRetries) w1)" by simp
  have "grows w1 (retryLoop e url out start endv 0 w)"
  proof (cases "fst r = None")
    case True
    then show ?thesis unfolding eq by simp
  next
    case False
    show ?thesis
    proof (cases "0 + 1 > maxRetries")
      case True
      then show ?thesis unfolding eq using gf by (simp only: False if_False if_True)
    next
      case nt: False
      then show ?thesis unfolding eq using g23 by (simp only: False if_False)
    qed
  qed
  with gq have g: "grows wq (retryLoop e url out start endv 0 w)" by (rule grows_trans)
  have gw: "grows w wq" and mem: "Http (Get url (Some (start, endv))) \<in> set (events_since w wq)"
    by (simp_all add: wq_def)
  from gw g mem show ?thesis by (rule grows_member)
qed

lemma runChunks_sends_requests:
  assumes "url_ok e url"
  shows "r \<in> set plan \<Longrightarrow>
    Http (Get url (Some r)) \<in> set (events_since w (runChunks e url out plan w))"
proof (induction plan arbitrary: w)
  case Nil
  then show ?case by simp
next
  case (Cons r0 plan)
  define w1 where "w1 = retryLoop e url out (fst r0) (snd r0) 0 w"
  have m: "(0::int) \<le> 0" "0 \<le> maxRetries" by (simp_all add: maxRetries_def)
  have g1: "grows w w1"
    using retryLoop_events [OF m, of w e url out "fst r0" "snd r0"] by (simp add: w1_def)
  have eq: "runChunks e url out (r0 # plan) w = runChunks e url out plan w1"
    by (simp add: runChunks_def w1_def)
  have g2: "grows w1 (runChunks e url out plan w1)"
    using runChunks_events [of w1 e url out plan] by simp
  show ?case
  proof (cases "r = r0")
    case True
    have "Http (Get url (Some (fst r0, snd r0))) \<in> set (events_since w w1)"
      unfolding w1_def using assms by (rule retryLoop_sends_request)
    then have "Http (Get url (Some r)) \<in> set (events_since w w1)"
      by (simp only: True prod.collapse)
    with g1 g2 have "Http (Get url (Some r)) \<in> set (events_since w (runChunks e url out plan w1))"
      by (rule grows_member)
    then show ?thesis by (simp only: eq)
  next
    case False
    with Cons.prems have "r \<in> set plan" by simp
    then have "Http (Get url (Some r)) \<in> set (events_since w1 (runChunks e url out plan w1))"
      by (rule Cons.IH)
    with g1 g2 have "Http (Get url (Some r)) \<in> set (events_since w (runChunks e url out plan w1))"
      by (rule grows_member_later)
    then show ?thesis by (simp only: eq)
  qed
qed

lemma downloadFile_ranged_plan:
  assumes "http e (tick w) (Head url) = Inr hresp" and "StatusCode hresp = 200"
    and "Atoi (Header_Get hresp ''Content-Length'') = Some fsize"
    and "Header_Get hresp ''Accept-Ranges'' = ''bytes''" and "url_ok e url"
    and "http e (Suc (tick w)) (Get url (Some (0, 1))) = Inr presp" and "StatusCode presp = 206"
  shows "downloadFile e url out wo w =
     (case os_Create e out (emit (Http (Get url (Some (0, 1)))) (emit (Http (Head url)) w)) of
        (Some err, w3) \<Rightarrow> (Some err, w3)
      | (None, w3) \<Rightarrow>
          (case file_Truncate e out fsize w3 of
             (Some err, w4) \<Rightarrow> (Some err, w4)
           | (None, w4) \<Rightarrow>
               (None, runChunks e url out
                  (chunkPlan fsize (if 0 < wo then wo else calculateWorkers fsize)) w4)))"
proof -
  have "downloadFile e url out wo w = rangedDownload e url out fsize wo
      (emit (Http (Get url (Some (0, 1)))) (emit (Http (Head url)) w))"
    using assms by (rule downloadFile_paths(5))
  also have "\<dots> = (case os_Create e out (emit (Http (Get url (Some (0, 1)))) (emit (Http (Head url)) w)) of
        (Some err, w3) \<Rightarrow> (Some err, w3)
      | (None, w3) \<Rightarrow>
          (case file_Truncate e out fsize w3 of
             (Some err, w4) \<Rightarrow> (Some err, w4)
           | (None, w4) \<Rightarrow>
               (None, runChunks e url out
                  (chunkPlan fsize (if 0 < wo then wo else calculateWorkers fsize)) w4)))"
    by (simp only: rangedDownload_def resolveWorkers_def Let_def)
  finally show ?thesis .
qed

lemma downloadFile_sends_plan:
  assumes "http e (tick w) (Head url) = Inr hresp" and "StatusCode hresp = 200"
    and "Atoi (Header_Get hresp ''Content-Length'') = Some fsize"
    and "Header_Get hresp ''Accept-Ranges'' = ''bytes''" and "url_ok e url"
    and "http e (Suc (tick w)) (Get url (Some (0, 1))) = Inr presp" and "StatusCode presp = 206"
    and "fs_fault e (Suc (Suc (tick w))) (OpCreate out) = None"
    and "0 \<le> fsize"
    and "fs_fault e (Suc (Suc (Suc (tick w)))) (OpTruncate out fsize) = None"
    and "r \<in> set (chunkPlan fsize (if 0 < wo then wo else calculateWorkers fsize))"
  shows "fst (downloadFile e url out wo w) = None"
    and "Http (Get url (Some r)) \<in> set (events_since
           (emit (Fs (OpTruncate out fsize)) (emit (Fs (OpCreate out))
              (emit (Http (Get url (Some (0, 1)))) (emit (Http (Head url)) w))))
           (snd (downloadFile e url out wo w)))"
proof -
  define w2 where "w2 = emit (Http (Get url (Some (0, 1)))) (emit (Http (Head url)) w)"
  define w3 where "w3 = snd (os_Create e out w2)"
  define w4 where "w4 = snd (file_Truncate e out fsize w3)"
  define plan where "plan = chunkPlan fsize (if 0 < wo then wo else calculateWorkers fsize)"
  have c: "os_Create e out w2 = (None, w3)"
    using assms(8) by (simp add: w3_def w2_def os_Create_def Let_def)
  have t3: "tick w3 = Suc (Suc (Suc (tick w)))" by (simp add: w3_def w2_def)
  have t: "file_Truncate e out fsize w3 = (None, w4)"
    using assms(9,10) t3 by (simp add: w4_def file_Truncate_def Let_def)
  have eq: "downloadFile e url out wo w = (None, runChunks e url out plan w4)"
    using downloadFile_ranged_plan [OF assms(1-7), of out wo] c t
    by (simp add: w2_def plan_def)
  show "fst (downloadFile e url out wo w) = None" by (simp add: eq)
  have tr: "trace w4 = trace (emit (Fs (OpTruncate out fsize)) (emit (Fs (OpCreate out)) w2))"
    using assms(8,9,10) by (simp add: w4_def w3_def file_Truncate_def os_Create_def Let_def w2_def)
  have "Http (Get url (Some r)) \<in> set (events_since w4 (runChunks e url out plan w4))"
    using assms(5) assms(11) unfolding plan_def by (rule runChunks_sends_requests)
  then have "Http (Get url (Some r)) \<in> set (events_since
      (emit (Fs (OpTruncate out fsize)) (emit (Fs (OpCreate out)) w2)) (runChunks e url out plan w4))"
    by (simp add: events_since_def tr)
  then show "Http (Get url (Some r)) \<in> set (events_since
           (emit (Fs (OpTruncate out fsize)) (emit (Fs (OpCreate out))
              (emit (Http (Get url (Some (0, 1)))) (emit (Http (Head url)) w))))
           (snd (downloadFile e url out wo w)))"
    by (simp add: eq w2_def)
qed

subsection \<open>Running the program on a concrete server\<close>

lemmas run_defs =
  server_def head_resp_def reply_def fresh_def downloadFile_def downloadCmd_def client_Do_def emit_def
  Header_Get_def Atoi_def digit_val_def verifyPartialSupport_def NewRequest_def rangedDownload_def
  os_Create_def file_Truncate_def os_OpenFile_def file_Seek_def file_Write_def
  resolveWorkers_def calculateWorkers_def MB_def GB_def chunkPlan_def chunkRange_def go_quot_def
  runChunks_def downloadPart_def singleDownload_def io_Copy_def maxRetries_def content_of_def
  resize_def write_at_def events_since_def Let_def retryLoop.simps

lemma rangedDownload_nil:
  "fs_fault e (tick w) (OpCreate out) = None \<Longrightarrow> 0 \<le> fsize \<Longrightarrow>
   fs_fault e (Suc (tick w)) (OpTruncate out fsize) = None \<Longrightarrow>
   fst (rangedDownload e url out fsize wo w) = None"
  by (simp add: rangedDownload_def os_Create_def file_Truncate_def Let_def)

lemma chunkPlan_10_3: "chunkPlan 10 3 = [(0, 2), (3, 5), (6, 9)]"
  by (simp add: chunkPlan_def chunkRange_def go_quot_def eval_nat_numeral)

subsection \<open>The worker heuristic (claim C5)\<close>

text \<open>
  C5. Without an override, \<^verbatim>\<open>calculateWorkers\<close> returns 1 below 5 MB, 4 from 5 MB and
  below 100 MB, 8 from 100 MB and below 1 GB, and 16 from 1 GB on (MB = 1024 * 1024
  bytes, GB = 1024 MB). It is monotonic non-decreasing in the size, and at the boundary
  5 MB gives 4 workers while 5 MB - 1 byte gives 1 worker.
\<close>

theorem calculateWorkers_steps:
  "(fsize < 5242880 \<longrightarrow> calculateWorkers fsize = 1)
   \<and> (5242880 \<le> fsize \<and> fsize < 104857600 \<longrightarrow> calculateWorkers fsize = 4)
   \<and> (104857600 \<le> fsize \<and> fsize < 1073741824 \<longrightarrow> calculateWorkers fsize = 8)
   \<and> (1073741824 \<le> fsize \<longrightarrow> calculateWorkers fsize = 16)
   \<and> (fsize \<le> fsize' \<longrightarrow> calculateWorkers fsize \<le> calculateWorkers fsize')
   \<and> calculateWorkers (5 * MB) = 4
   \<and> calculateWorkers (5 * MB - 1) = 1"
  by (simp add: calculateWorkers_def MB_def GB_def)

theorem calculateWorkers_steps_witness:
  "calculateWorkers 5242879 = 1 \<and> calculateWorkers 5242880 = 4
   \<and> calculateWorkers 104857599 = 4 \<and> calculateWorkers 104857600 = 8
   \<and> calculateWorkers 1073741823 = 8 \<and> calculateWorkers 1073741824 = 16
   \<and> calculateWorkers 5242879 \<le> calculateWorkers 1073741824"
  using calculateWorkers_steps [of 5242879 1073741824]
    calculateWorkers_steps [of 5242880 5242880]
    calculateWorkers_steps [of 104857599 104857599]
    calculateWorkers_steps [of 104857600 104857600]
    calculateWorkers_steps [of 1073741823 1073741823]
    calculateWorkers_steps [of 1073741824 1073741824]
  by simp

subsection \<open>The chunk plan (claim C2)\<close>

text \<open>
  C2, as the code has it. For every total size \<open>\<ge> 0\<close> and worker count \<open>\<ge> 1\<close> the loop of
  \<^verbatim>\<open>downloadFile\<close> plans exactly \<open>workers\<close> ranges, never fewer. Read as sets of byte
  offsets (a range whose end lies before its start holds no byte) the ranges are
  pairwise disjoint, each starts one past the end of its predecessor, and their union is
  exactly \<open>[0, totalSize - 1]\<close>. When the total size is smaller than the worker count,
  the first \<open>workers - 1\<close> ranges are the empty range \<open>[0, -1]\<close> and the last one is
  \<open>[0, totalSize - 1]\<close>.
\<close>

theorem chunkPlan_partition:
  assumes "0 \<le> fsize" and "1 \<le> workers"
  shows "length (chunkPlan fsize workers) = nat workers
    \<and> (\<Union>r \<in> set (chunkPlan fsize workers). range_bytes r) = {0..fsize - 1}
    \<and> (\<forall>i j. i < j \<and> j < nat workers \<longrightarrow>
          range_bytes (chunkPlan fsize workers ! i) \<inter> range_bytes (chunkPlan fsize workers ! j) = {})
    \<and> (\<forall>i. Suc i < nat workers \<longrightarrow>
          fst (chunkPlan fsize workers ! Suc i) = snd (chunkPlan fsize workers ! i) + 1)
    \<and> (fsize < workers \<longrightarrow>
          chunkPlan fsize workers = replicate (nat workers - 1) (0, - 1) @ [(0, fsize - 1)])"
proof (intro conjI allI impI)
  show "length (chunkPlan fsize workers) = nat workers"
    by (rule chunkPlan_length)
  show "(\<Union>r \<in> set (chunkPlan fsize workers). range_bytes r) = {0..fsize - 1}"
    using assms by (rule chunkPlan_union)
next
  fix i j :: nat
  assume ij: "i < j \<and> j < nat workers"
  then have "snd (chunkRange fsize workers (int i)) < fst (chunkRange fsize workers (int j))"
    using assms by (intro chunkRange_before) auto
  then show "range_bytes (chunkPlan fsize workers ! i) \<inter> range_bytes (chunkPlan fsize workers ! j) = {}"
    using ij by (auto simp: chunkPlan_nth range_bytes_def)
next
  fix i :: nat
  assume i: "Suc i < nat workers"
  then have "fst (chunkRange fsize workers (int i + 1)) = snd (chunkRange fsize workers (int i)) + 1"
    using assms by (intro chunkRange_next) auto
  then show "fst (chunkPlan fsize workers ! Suc i) = snd (chunkPlan fsize workers ! i) + 1"
    using i by (simp add: chunkPlan_nth add.commute)
next
  assume "fsize < workers"
  with assms show "chunkPlan fsize workers = replicate (nat workers - 1) (0, - 1) @ [(0, fsize - 1)]"
    by (rule chunkPlan_small)
qed

theorem chunkPlan_partition_witness:
  "(0::int) \<le> 2 \<and> (1::int) \<le> 4
   \<and> length (chunkPlan 2 4) = 4
   \<and> (\<Union>r \<in> set (chunkPlan 2 4). range_bytes r) = {0..1}
   \<and> range_bytes (chunkPlan 2 4 ! 2) \<inter> range_bytes (chunkPlan 2 4 ! 3) = {}
   \<and> fst (chunkPlan 2 4 ! 3) = snd (chunkPlan 2 4 ! 2) + 1
   \<and> chunkPlan 2 4 = [(0, - 1), (0, - 1), (0, - 1), (0, 1)]"
proof -
  have h: "(0::int) \<le> 2" "(1::int) \<le> 4" by simp_all
  note t = chunkPlan_partition [OF h]
  have "length (chunkPlan 2 4) = nat 4"
    by (rule t [THEN conjunct1])
  then have len: "length (chunkPlan 2 4) = 4" by simp
  have "(\<Union>r \<in> set (chunkPlan 2 4). range_bytes r) = {0..2 - 1}"
    by (rule t [THEN conjunct2, THEN conjunct1])
  then have un: "(\<Union>r \<in> set (chunkPlan 2 4). range_bytes r) = {0..1}" by simp
  from t have "(2::nat) < 3 \<and> 3 < nat 4 \<longrightarrow>
      range_bytes (chunkPlan 2 4 ! 2) \<inter> range_bytes (chunkPlan 2 4 ! 3) = {}" by blast
  then have dis: "range_bytes (chunkPlan 2 4 ! 2) \<inter> range_bytes (chunkPlan 2 4 ! 3) = {}" by simp
  from t have "Suc 2 < nat 4 \<longrightarrow> fst (chunkPlan 2 4 ! Suc 2) = snd (chunkPlan 2 4 ! 2) + 1" by blast
  then have nxt: "fst (chunkPlan 2 4 ! 3) = snd (chunkPlan 2 4 ! 2) + 1"
    by (simp add: eval_nat_numeral)
  from t have "chunkPlan 2 4 = replicate (nat 4 - 1) (0, - 1) @ [(0, 2 - 1)]" by simp
  then have pl: "chunkPlan 2 4 = [(0, - 1), (0, - 1), (0, - 1), (0, 1)]"
    by (simp add: eval_nat_numeral)
  from h len un dis nxt pl show ?thesis by blast
qed

text \<open>
  The claim as written asks for \<open>min(workers, totalSize)\<close> ranges when the total size
  is below the worker count: for 2 bytes and 4 workers the loop plans 4 ranges, not 2.
\<close>

theorem chunkPlan_count_counterexample:
  "(0::int) \<le> 2 \<and> (1::int) \<le> 4 \<and> (2::int) < 4
   \<and> length (chunkPlan 2 4) = 4
   \<and> length (chunkPlan 2 4) \<noteq> nat (min 4 2)"
  by (simp add: chunkPlan_length)

subsection \<open>The retry loop (claim C4)\<close>

text \<open>
  C4. For each chunk the retry loop makes an initial attempt and at most
  \<open>maxRetries = 3\<close> retries, so at most \<open>maxRetries + 1\<close> attempts; it stops at the
  first attempt that succeeds; between two consecutive attempts it sleeps the fixed
  \<open>retryBackoff\<close> of 2 seconds; every attempt is \<^verbatim>\<open>downloadPart\<close> on the same range, so
  every request it sends is \<^verbatim>\<open>Range: bytes=start-end\<close>, every seek goes to \<open>start\<close> and
  every write lands at or after \<open>start\<close>.
\<close>

theorem retryLoop_bounded:
  "retryLoop e url out start endv 0 w =
     supervised (downloadPart e url out start endv)
       (\<lambda>k w'. emit (Sleep retryBackoff) (emit (PrintRetrying start endv k) w'))
       (emit (PrintFailed start endv maxRetries))
       (nat maxRetries) 1 w
   \<and> maxRetries = 3 \<and> retryBackoff = 2 * Second \<and> Second = 1000000000
   \<and> length (filter is_request (events_since w (retryLoop e url out start endv 0 w)))
        \<le> nat (maxRetries + 1)
   \<and> length (filter is_sleep (events_since w (retryLoop e url out start endv 0 w)))
        \<le> nat maxRetries
   \<and> list_all (chunk_event url out start endv)
        (events_since w (retryLoop e url out start endv 0 w))"
proof -
  have m: "(0::int) \<le> 0" "0 \<le> maxRetries" by (simp_all add: maxRetries_def)
  from retryLoop_supervised [OF m, of e url out start endv w]
  have "retryLoop e url out start endv 0 w =
     supervised (downloadPart e url out start endv)
       (\<lambda>k w'. emit (Sleep retryBackoff) (emit (PrintRetrying start endv k) w'))
       (emit (PrintFailed start endv maxRetries))
       (nat maxRetries) 1 w"
    by simp
  moreover from retryLoop_events [OF m, of w e url out start endv]
  have "length (filter is_request (events_since w (retryLoop e url out start endv 0 w)))
        \<le> nat (maxRetries + 1)"
    and "length (filter is_sleep (events_since w (retryLoop e url out start endv 0 w)))
        \<le> nat maxRetries"
    and "list_all (chunk_event url out start endv)
        (events_since w (retryLoop e url out start endv 0 w))"
    by simp_all
  ultimately show ?thesis
    by (simp add: maxRetries_def retryBackoff_def Second_def)
qed

theorem retryLoop_bounded_witness:
  "trace (retryLoop
      (server (head_resp 200 ''1'' ''bytes'')
         (\<lambda>t r. if t < 4 then Inl (TransportError ''reset'') else Inr (reply 206 [([5], Some EOF)]))
         (Inl EOF))
      ''u'' ''f'' 0 0 0 (fresh\<lparr>files := (\<lambda>p. if p = ''f'' then Some [0] else None)\<rparr>))
    = [Http (Get ''u'' (Some (0, 0))), PrintRetrying 0 0 1, Sleep retryBackoff,
       Http (Get ''u'' (Some (0, 0))), PrintRetrying 0 0 2, Sleep retryBackoff,
       Http (Get ''u'' (Some (0, 0))), Fs (OpOpen ''f''), Fs (OpSeek ''f'' 0),
       Fs (OpWrite ''f'' 0 [5]), BarAdd 1]
   \<and> length (filter is_request (events_since (fresh\<lparr>files := (\<lambda>p. if p = ''f'' then Some [0] else None)\<rparr>)
        (retryLoop
          (server (head_resp 200 ''1'' ''bytes'')
             (\<lambda>t r. if t < 4 then Inl (TransportError ''reset'') else Inr (reply 206 [([5], Some EOF)]))
             (Inl EOF))
          ''u'' ''f'' 0 0 0 (fresh\<lparr>files := (\<lambda>p. if p = ''f'' then Some [0] else None)\<rparr>)))) \<le> 4
   \<and> length (filter is_sleep (events_since (fresh\<lparr>files := (\<lambda>p. if p = ''f'' then Some [0] else None)\<rparr>)
        (retryLoop
          (server (head_resp 200 ''1'' ''bytes'')
             (\<lambda>t r. if t < 4 then Inl (TransportError ''reset'') else Inr (reply 206 [([5], Some EOF)]))
             (Inl EOF))
          ''u'' ''f'' 0 0 0 (fresh\<lparr>files := (\<lambda>p. if p = ''f'' then Some [0] else None)\<rparr>)))) \<le> 3"
proof -
  let ?e = "server (head_resp 200 ''1'' ''bytes'')
         (\<lambda>t r. if t < 4 then Inl (TransportError ''reset'') else Inr (reply 206 [([5], Some EOF)]))
         (Inl EOF)"
  let ?w = "fresh\<lparr>files := (\<lambda>p. if p = ''f'' then Some [0] else None)\<rparr>"
  have tr: "trace (retryLoop ?e ''u'' ''f'' 0 0 0 ?w)
    = [Http (Get ''u'' (Some (0, 0))), PrintRetrying 0 0 1, Sleep retryBackoff,
       Http (Get ''u'' (Some (0, 0))), PrintRetrying 0 0 2, Sleep retryBackoff,
       Http (Get ''u'' (Some (0, 0))), Fs (OpOpen ''f''), Fs (OpSeek ''f'' 0),
       Fs (OpWrite ''f'' 0 [5]), BarAdd 1]"
    by (simp add: run_defs)
  note t = retryLoop_bounded [of ?e "''u''" "''f''" 0 0 ?w]
  from t have mr: "maxRetries = 3" by blast
  from t have "length (filter is_request (events_since ?w (retryLoop ?e ''u'' ''f'' 0 0 0 ?w)))
      \<le> nat (maxRetries + 1)" by blast
  then have b1: "length (filter is_request (events_since ?w (retryLoop ?e ''u'' ''f'' 0 0 0 ?w))) \<le> 4"
    unfolding mr by simp
  from t have "length (filter is_sleep (events_since ?w (retryLoop ?e ''u'' ''f'' 0 0 0 ?w)))
      \<le> nat maxRetries" by blast
  then have b2: "length (filter is_sleep (events_since ?w (retryLoop ?e ''u'' ''f'' 0 0 0 ?w))) \<le> 3"
    unfolding mr by simp
  from tr b1 b2 show ?thesis by (intro conjI)
qed

subsection \<open>A chunk that exhausts its retries (claim C1)\<close>

text \<open>
  C1 asks that a chunk which fails all its attempts makes \<^verbatim>\<open>downloadFile\<close> return an
  error and the process exit with a non-zero status. The code does not: the goroutine
  prints the failure and ends, and \<^verbatim>\<open>downloadFile\<close> returns \<^verbatim>\<open>nil\<close> after
  \<^verbatim>\<open>wg.Wait()\<close>. Here the server passes the probe and then resets every chunk request
  for a 10-byte file: the only chunk fails four times, the failure is printed, and the
  result is \<^verbatim>\<open>nil\<close> with exit status 0.
\<close>

theorem failed_chunk_reported_success:
  "fst (downloadFile
      (server (head_resp 200 ''10'' ''bytes'')
         (\<lambda>t r. if t = 1 then Inr (reply 206 []) else Inl (TransportError ''connection reset''))
         (Inl (TransportError ''unused'')))
      ''u'' ''f'' 0 fresh) = None
   \<and> downloadCmd
      (server (head_resp 200 ''10'' ''bytes'')
         (\<lambda>t r. if t = 1 then Inr (reply 206 []) else Inl (TransportError ''connection reset''))
         (Inl (TransportError ''unused'')))
      ''u'' ''f'' 0 fresh = 0
   \<and> trace (snd (downloadFile
      (server (head_resp 200 ''10'' ''bytes'')
         (\<lambda>t r. if t = 1 then Inr (reply 206 []) else Inl (TransportError ''connection reset''))
         (Inl (TransportError ''unused'')))
      ''u'' ''f'' 0 fresh)) =
     [Http (Head ''u''), Http (Get ''u'' (Some (0, 1))), Fs (OpCreate ''f''), Fs (OpTruncate ''f'' 10),
      Http (Get ''u'' (Some (0, 9))), PrintRetrying 0 9 1, Sleep retryBackoff,
      Http (Get ''u'' (Some (0, 9))), PrintRetrying 0 9 2, Sleep retryBackoff,
      Http (Get ''u'' (Some (0, 9))), PrintRetrying 0 9 3, Sleep retryBackoff,
      Http (Get ''u'' (Some (0, 9))), PrintFailed 0 9 3]"
  by (simp add: run_defs)

subsection \<open>A truncated chunk response (claim C6)\<close>

text \<open>
  C6. When the ranged request is answered with status 206 and the body ends in
  \<^verbatim>\<open>io.EOF\<close> without a transport error, and no file operation fails, \<^verbatim>\<open>downloadPart\<close>
  returns \<^verbatim>\<open>nil\<close> whatever the number of bytes received: it never compares that number
  with \<open>end - start + 1\<close>. The received bytes are written from offset \<open>start\<close>; the
  bytes of the file after them, in particular the rest of the range when the body was
  short, stay what they were (the zeros of the pre-sized file).
\<close>

theorem downloadPart_truncated_ok:
  assumes "url_ok e url"
    and "http e (tick w) (Get url (Some (start, endv))) = Inr resp"
    and "StatusCode resp = 206"
    and "ends_in_EOF (Body resp)"
    and "\<forall>t op. fs_fault e t op = None"
    and "files w out = Some c"
    and "0 \<le> start" and "nat start \<le> length c"
  shows "fst (downloadPart e url out start endv w) = None
    \<and> files (snd (downloadPart e url out start endv w)) out
        = Some (take (nat start) c @ received (Body resp)
                @ drop (nat start + length (received (Body resp))) c)"
proof -
  define w3 where "w3 = emit (Fs (OpSeek out start)) (emit (Fs (OpOpen out))
      (emit (Http (Get url (Some (start, endv)))) w))"
  have dp: "downloadPart e url out start endv w = readLoop e out (nat start) (Body resp) w3"
    using assms
    by (simp add: downloadPart_def NewRequest_def client_Do_def os_OpenFile_def file_Seek_def
        Let_def w3_def)
  have "files w3 out = Some c" using assms(6) by (simp add: w3_def)
  with assms(4) have "fst (readLoop e out (nat start) (Body resp) w3) = None
    \<and> files (snd (readLoop e out (nat start) (Body resp) w3))
        = (files w3)(out := Some (write_at c (nat start) (received (Body resp))))"
    using assms(8) by (rule readLoop_clean [OF assms(5)])
  then show ?thesis
    using assms(8) by (simp add: dp write_at_def)
qed

theorem downloadPart_truncated_ok_witness:
  "int (length (received [([1, 2], None), ([3], Some EOF)])) < 9 - 0 + 1
   \<and> fst (downloadPart
        (server (head_resp 200 ''10'' ''bytes'')
           (\<lambda>t r. Inr (reply 206 [([1, 2], None), ([3], Some EOF)])) (Inl EOF))
        ''u'' ''f'' 0 9 (fresh\<lparr>files := (\<lambda>p. if p = ''f'' then Some (replicate 10 0) else None)\<rparr>)) = None
   \<and> files (snd (downloadPart
        (server (head_resp 200 ''10'' ''bytes'')
           (\<lambda>t r. Inr (reply 206 [([1, 2], None), ([3], Some EOF)])) (Inl EOF))
        ''u'' ''f'' 0 9 (fresh\<lparr>files := (\<lambda>p. if p = ''f'' then Some (replicate 10 0) else None)\<rparr>))) ''f''
      = Some ([1, 2, 3] @ replicate 7 0)"
  using downloadPart_truncated_ok
    [of "server (head_resp 200 ''10'' ''bytes'')
           (\<lambda>t r. Inr (reply 206 [([1, 2], None), ([3], Some EOF)])) (Inl EOF)"
        "''u''" "fresh\<lparr>files := (\<lambda>p. if p = ''f'' then Some (replicate 10 0) else None)\<rparr>"
        0 9 "reply 206 [([1, 2], None), ([3], Some EOF)]" "''f''" "replicate 10 0"]
  by (simp add: server_def reply_def fresh_def)

subsection \<open>The empty resource (claim C7)\<close>

text \<open>
  C7 asks that for a total size of 0 the single zero-length chunk is complete at once.
  The plan is indeed the single range \<open>[0, -1]\<close>, but the code fetches it like any
  other: it sends \<^verbatim>\<open>Range: bytes=0--1\<close>. A server that ignores the malformed range and
  answers 200 makes the chunk fail four times, with three sleeps; \<^verbatim>\<open>downloadFile\<close> then
  returns \<^verbatim>\<open>nil\<close> only because it ignores failed chunks.
\<close>

theorem empty_resource_chunk_fetched:
  "fst (downloadFile
      (server (head_resp 200 ''0'' ''bytes'')
         (\<lambda>t r. if r = (0, 1) then Inr (reply 206 []) else Inr (reply 200 []))
         (Inr (reply 200 [])))
      ''u'' ''f'' 0 fresh) = None
   \<and> chunkPlan 0 (resolveWorkers 0 0) = [(0, - 1)]
   \<and> trace (snd (downloadFile
      (server (head_resp 200 ''0'' ''bytes'')
         (\<lambda>t r. if r = (0, 1) then Inr (reply 206 []) else Inr (reply 200 []))
         (Inr (reply 200 [])))
      ''u'' ''f'' 0 fresh)) =
     [Http (Head ''u''), Http (Get ''u'' (Some (0, 1))), Fs (OpCreate ''f''), Fs (OpTruncate ''f'' 0),
      Http (Get ''u'' (Some (0, - 1))), PrintRetrying 0 (- 1) 1, Sleep retryBackoff,
      Http (Get ''u'' (Some (0, - 1))), PrintRetrying 0 (- 1) 2, Sleep retryBackoff,
      Http (Get ''u'' (Some (0, - 1))), PrintRetrying 0 (- 1) 3, Sleep retryBackoff,
      Http (Get ''u'' (Some (0, - 1))), PrintFailed 0 (- 1) 3]
   \<and> files (snd (downloadFile
      (server (head_resp 200 ''0'' ''bytes'')
         (\<lambda>t r. if r = (0, 1) then Inr (reply 206 []) else Inr (reply 200 []))
         (Inr (reply 200 [])))
      ''u'' ''f'' 0 fresh)) ''f'' = Some []"
  by (simp add: run_defs)

subsection \<open>Failures of the probe (claim C8)\<close>

text \<open>
  C8. When the metadata request fails in transport, or its status is not 200, or the
  \<^verbatim>\<open>Content-Length\<close> header is missing or does not parse, \<^verbatim>\<open>downloadFile\<close> returns an
  error and the \<^verbatim>\<open>HEAD\<close> request is the only call it has made: no file was created,
  opened, truncated or written, and the file system is what it was.
\<close>

theorem probe_failure_creates_nothing:
  assumes "(\<exists>err. http e (tick w) (Head url) = Inl err)
     \<or> (\<exists>resp. http e (tick w) (Head url) = Inr resp
           \<and> (StatusCode resp \<noteq> 200
              \<or> Header_Get resp ''Content-Length'' = []
              \<or> Atoi (Header_Get resp ''Content-Length'') = None))"
  shows "fst (downloadFile e url out wo w) \<noteq> None
    \<and> events_since w (snd (downloadFile e url out wo w)) = [Http (Head url)]
    \<and> filter is_fs (events_since w (snd (downloadFile e url out wo w))) = []
    \<and> files (snd (downloadFile e url out wo w)) = files w"
proof -
  have "fst (downloadFile e url out wo w) \<noteq> None
      \<and> snd (downloadFile e url out wo w) = emit (Http (Head url)) w"
    using assms
    by (auto simp: downloadFile_def client_Do_def Let_def split: option.splits)
  then show ?thesis by simp
qed

theorem probe_failure_creates_nothing_witness:
  "fst (downloadFile (server (head_resp 404 ''10'' ''bytes'') (\<lambda>t r. Inr (reply 206 [])) (Inr (reply 200 [])))
        ''u'' ''f'' 0 fresh) = Some (StatusError 404)
   \<and> events_since fresh (snd (downloadFile
        (server (head_resp 404 ''10'' ''bytes'') (\<lambda>t r. Inr (reply 206 [])) (Inr (reply 200 [])))
        ''u'' ''f'' 0 fresh)) = [Http (Head ''u'')]
   \<and> files (snd (downloadFile
        (server (head_resp 404 ''10'' ''bytes'') (\<lambda>t r. Inr (reply 206 [])) (Inr (reply 200 [])))
        ''u'' ''f'' 0 fresh)) ''f'' = None
   \<and> fst (downloadFile (server (head_resp 200 ''1o'' ''bytes'') (\<lambda>t r. Inr (reply 206 [])) (Inr (reply 200 [])))
        ''u'' ''f'' 0 fresh) = Some InvalidContentLength
   \<and> files (snd (downloadFile
        (server (head_resp 200 ''1o'' ''bytes'') (\<lambda>t r. Inr (reply 206 [])) (Inr (reply 200 [])))
        ''u'' ''f'' 0 fresh)) ''f'' = None"
proof -
  let ?e1 = "server (head_resp 404 ''10'' ''bytes'') (\<lambda>t r. Inr (reply 206 [])) (Inr (reply 200 []))"
  let ?e2 = "server (head_resp 200 ''1o'' ''bytes'') (\<lambda>t r. Inr (reply 206 [])) (Inr (reply 200 []))"
  have h1: "(\<exists>err. http ?e1 (tick fresh) (Head ''u'') = Inl err)
     \<or> (\<exists>resp. http ?e1 (tick fresh) (Head ''u'') = Inr resp
           \<and> (StatusCode resp \<noteq> 200
              \<or> Header_Get resp ''Content-Length'' = []
              \<or> Atoi (Header_Get resp ''Content-Length'') = None))"
    by (simp add: server_def head_resp_def)
  have h2: "(\<exists>err. http ?e2 (tick fresh) (Head ''u'') = Inl err)
     \<or> (\<exists>resp. http ?e2 (tick fresh) (Head ''u'') = Inr resp
           \<and> (StatusCode resp \<noteq> 200
              \<or> Header_Get resp ''Content-Length'' = []
              \<or> Atoi (Header_Get resp ''Content-Length'') = None))"
    by (simp add: server_def head_resp_def Header_Get_def Atoi_def digit_val_def)
  have r1: "fst (downloadFile ?e1 ''u'' ''f'' 0 fresh) = Some (StatusError 404)"
    by (simp add: run_defs)
  have r2: "fst (downloadFile ?e2 ''u'' ''f'' 0 fresh) = Some InvalidContentLength"
    by (simp add: run_defs)
  have f: "files fresh ''f'' = None" by (simp add: fresh_def)
  note t1 = probe_failure_creates_nothing [OF h1, of "''f''" 0]
  note t2 = probe_failure_creates_nothing [OF h2, of "''f''" 0]
  have a1: "events_since fresh (snd (downloadFile ?e1 ''u'' ''f'' 0 fresh)) = [Http (Head ''u'')]"
    by (rule t1 [THEN conjunct2, THEN conjunct1])
  have "files (snd (downloadFile ?e1 ''u'' ''f'' 0 fresh)) = files fresh"
    by (rule t1 [THEN conjunct2, THEN conjunct2, THEN conjunct2])
  then have b1: "files (snd (downloadFile ?e1 ''u'' ''f'' 0 fresh)) ''f'' = None"
    by (simp only: f)
  have "files (snd (downloadFile ?e2 ''u'' ''f'' 0 fresh)) = files fresh"
    by (rule t2 [THEN conjunct2, THEN conjunct2, THEN conjunct2])
  then have b2: "files (snd (downloadFile ?e2 ''u'' ''f'' 0 fresh)) ''f'' = None"
    by (simp only: f)
  from r1 a1 b1 r2 b2 show ?thesis by (intro conjI)
qed

subsection \<open>The worker override (claim C10)\<close>

text \<open>
  C10. With a negative \<^verbatim>\<open>--worker\<close> override \<^verbatim>\<open>downloadFile\<close> does exactly what it does
  with the override 0: the heuristic chooses the worker count. Only a strictly positive
  override replaces the heuristic, and it is taken as it is whatever the total size: the
  plan then has that many ranges, also when it exceeds the size. This is the plan
  \<^verbatim>\<open>downloadFile\<close> itself runs: once the probe has passed, its result is the file's
  creation and pre-sizing followed by the chunk loops over the plan of the override when
  it is positive, and of the heuristic otherwise; and when creation and pre-sizing
  succeed it returns \<^verbatim>\<open>nil\<close> and has sent, after them, a request for every range of
  that plan.
\<close>

theorem workers_override:
  "(wo < 0 \<longrightarrow> downloadFile e url out wo w = downloadFile e url out 0 w)
   \<and> (wo \<le> 0 \<longrightarrow> resolveWorkers fsize wo = calculateWorkers fsize)
   \<and> (0 < wo \<longrightarrow> resolveWorkers fsize wo = wo
        \<and> length (chunkPlan fsize (resolveWorkers fsize wo)) = nat wo)
   \<and> (http e (tick w) (Head url) = Inr hresp \<and> StatusCode hresp = 200
        \<and> Atoi (Header_Get hresp ''Content-Length'') = Some fsize
        \<and> Header_Get hresp ''Accept-Ranges'' = ''bytes'' \<and> url_ok e url
        \<and> http e (Suc (tick w)) (Get url (Some (0, 1))) = Inr presp \<and> StatusCode presp = 206 \<longrightarrow>
        downloadFile e url out wo w =
          (case os_Create e out (emit (Http (Get url (Some (0, 1)))) (emit (Http (Head url)) w)) of
             (Some err, w3) \<Rightarrow> (Some err, w3)
           | (None, w3) \<Rightarrow>
               (case file_Truncate e out fsize w3 of
                  (Some err, w4) \<Rightarrow> (Some err, w4)
                | (None, w4) \<Rightarrow>
                    (None, runChunks e url out
                       (chunkPlan fsize (if 0 < wo then wo else calculateWorkers fsize)) w4))))
   \<and> (http e (tick w) (Head url) = Inr hresp \<and> StatusCode hresp = 200
        \<and> Atoi (Header_Get hresp ''Content-Length'') = Some fsize
        \<and> Header_Get hresp ''Accept-Ranges'' = ''bytes'' \<and> url_ok e url
        \<and> http e (Suc (tick w)) (Get url (Some (0, 1))) = Inr presp \<and> StatusCode presp = 206
        \<and> fs_fault e (Suc (Suc (tick w))) (OpCreate out) = None \<and> 0 \<le> fsize
        \<and> fs_fault e (Suc (Suc (Suc (tick w)))) (OpTruncate out fsize) = None \<longrightarrow>
        fst (downloadFile e url out wo w) = None
        \<and> (\<forall>r \<in> set (chunkPlan fsize (if 0 < wo then wo else calculateWorkers fsize)).
              Http (Get url (Some r)) \<in> set (events_since
                (emit (Fs (OpTruncate out fsize)) (emit (Fs (OpCreate out))
                   (emit (Http (Get url (Some (0, 1)))) (emit (Http (Head url)) w))))
                (snd (downloadFile e url out wo w)))))"
proof (intro conjI impI ballI)
  assume "wo < 0"
  then have "wo \<le> 0" by simp
  then show "downloadFile e url out wo w = downloadFile e url out 0 w"
    by (rule downloadFile_override)
next
  assume "wo \<le> 0"
  then show "resolveWorkers fsize wo = calculateWorkers fsize"
    by (simp add: resolveWorkers_def)
next
  assume "0 < wo"
  then show "resolveWorkers fsize wo = wo"
    by (simp add: resolveWorkers_def)
next
  assume "0 < wo"
  then show "length (chunkPlan fsize (resolveWorkers fsize wo)) = nat wo"
    by (simp add: resolveWorkers_def chunkPlan_length)
next
  assume "http e (tick w) (Head url) = Inr hresp \<and> StatusCode hresp = 200
        \<and> Atoi (Header_Get hresp ''Content-Length'') = Some fsize
        \<and> Header_Get hresp ''Accept-Ranges'' = ''bytes'' \<and> url_ok e url
        \<and> http e (Suc (tick w)) (Get url (Some (0, 1))) = Inr presp \<and> StatusCode presp = 206"
  then show "downloadFile e url out wo w =
          (case os_Create e out (emit (Http (Get url (Some (0, 1)))) (emit (Http (Head url)) w)) of
             (Some err, w3) \<Rightarrow> (Some err, w3)
           | (None, w3) \<Rightarrow>
               (case file_Truncate e out fsize w3 of
                  (Some err, w4) \<Rightarrow> (Some err, w4)
                | (None, w4) \<Rightarrow>
                    (None, runChunks e url out
                       (chunkPlan fsize (if 0 < wo then wo else calculateWorkers fsize)) w4)))"
    by (intro downloadFile_ranged_plan) blast+
next
  assume a: "http e (tick w) (Head url) = Inr hresp \<and> StatusCode hresp = 200
        \<and> Atoi (Header_Get hresp ''Content-Length'') = Some fsize
        \<and> Header_Get hresp ''Accept-Ranges'' = ''bytes'' \<and> url_ok e url
        \<and> http e (Suc (tick w)) (Get url (Some (0, 1))) = Inr presp \<and> StatusCode presp = 206
        \<and> fs_fault e (Suc (Suc (tick w))) (OpCreate out) = None \<and> 0 \<le> fsize
        \<and> fs_fault e (Suc (Suc (Suc (tick w)))) (OpTruncate out fsize) = None"
  have p: "chunkRange fsize (resolveWorkers fsize wo) 0
      \<in> set (chunkPlan fsize (if 0 < wo then wo else calculateWorkers fsize))"
    using resolveWorkers_pos [of fsize wo]
    by (simp add: set_chunkPlan resolveWorkers_def Let_def)
  from a show "fst (downloadFile e url out wo w) = None"
    by (intro downloadFile_sends_plan(1) [OF _ _ _ _ _ _ _ _ _ _ p]) blast+
next
  fix r
  assume a: "http e (tick w) (Head url) = Inr hresp \<and> StatusCode hresp = 200
        \<and> Atoi (Header_Get hresp ''Content-Length'') = Some fsize
        \<and> Header_Get hresp ''Accept-Ranges'' = ''bytes'' \<and> url_ok e url
        \<and> http e (Suc (tick w)) (Get url (Some (0, 1))) = Inr presp \<and> StatusCode presp = 206
        \<and> fs_fault e (Suc (Suc (tick w))) (OpCreate out) = None \<and> 0 \<le> fsize
        \<and> fs_fault e (Suc (Suc (Suc (tick w)))) (OpTruncate out fsize) = None"
    and r: "r \<in> set (chunkPlan fsize (if 0 < wo then wo else calculateWorkers fsize))"
  from a show "Http (Get url (Some r)) \<in> set (events_since
                (emit (Fs (OpTruncate out fsize)) (emit (Fs (OpCreate out))
                   (emit (Http (Get url (Some (0, 1)))) (emit (Http (Head url)) w))))
                (snd (downloadFile e url out wo w)))"
    by (intro downloadFile_sends_plan(2) [OF _ _ _ _ _ _ _ _ _ _ r]) blast+
qed

theorem workers_override_witness:
  "downloadFile (server (head_resp 200 ''10'' ''bytes'') (\<lambda>t r. Inr (reply 206 [])) (Inl EOF))
       ''u'' ''f'' (- 3) fresh
     = downloadFile (server (head_resp 200 ''10'' ''bytes'') (\<lambda>t r. Inr (reply 206 [])) (Inl EOF))
       ''u'' ''f'' 0 fresh
   \<and> resolveWorkers 2 (- 3) = calculateWorkers 2
   \<and> resolveWorkers 2 8 = 8
   \<and> length (chunkPlan 2 (resolveWorkers 2 8)) = 8
   \<and> chunkPlan 10 3 = [(0, 2), (3, 5), (6, 9)]
   \<and> fst (downloadFile (server (head_resp 200 ''10'' ''bytes'') (\<lambda>t r. Inr (reply 206 [])) (Inl EOF))
       ''u'' ''f'' 3 fresh) = None
   \<and> Http (Get ''u'' (Some (0, 2))) \<in> set (events_since
        (emit (Fs (OpTruncate ''f'' 10)) (emit (Fs (OpCreate ''f''))
           (emit (Http (Get ''u'' (Some (0, 1)))) (emit (Http (Head ''u'')) fresh))))
        (snd (downloadFile (server (head_resp 200 ''10'' ''bytes'') (\<lambda>t r. Inr (reply 206 [])) (Inl EOF))
           ''u'' ''f'' 3 fresh)))
   \<and> Http (Get ''u'' (Some (3, 5))) \<in> set (events_since
        (emit (Fs (OpTruncate ''f'' 10)) (emit (Fs (OpCreate ''f''))
           (emit (Http (Get ''u'' (Some (0, 1)))) (emit (Http (Head ''u'')) fresh))))
        (snd (downloadFile (server (head_resp 200 ''10'' ''bytes'') (\<lambda>t r. Inr (reply 206 [])) (Inl EOF))
           ''u'' ''f'' 3 fresh)))
   \<and> Http (Get ''u'' (Some (6, 9))) \<in> set (events_since
        (emit (Fs (OpTruncate ''f'' 10)) (emit (Fs (OpCreate ''f''))
           (emit (Http (Get ''u'' (Some (0, 1)))) (emit (Http (Head ''u'')) fresh))))
        (snd (downloadFile (server (head_resp 200 ''10'' ''bytes'') (\<lambda>t r. Inr (reply 206 [])) (Inl EOF))
           ''u'' ''f'' 3 fresh)))
   \<and> trace (snd (downloadFile (server (head_resp 200 ''10'' ''bytes'') (\<lambda>t r. Inr (reply 206 [])) (Inl EOF))
       ''u'' ''f'' 3 fresh))
     = [Http (Head ''u''), Http (Get ''u'' (Some (0, 1))), Fs (OpCreate ''f''), Fs (OpTruncate ''f'' 10),
        Http (Get ''u'' (Some (0, 2))), Fs (OpOpen ''f''), Fs (OpSeek ''f'' 0),
        Http (Get ''u'' (Some (3, 5))), Fs (OpOpen ''f''), Fs (OpSeek ''f'' 3),
        Http (Get ''u'' (Some (6, 9))), Fs (OpOpen ''f''), Fs (OpSeek ''f'' 6)]
   \<and> trace (snd (downloadFile (server (head_resp 200 ''10'' ''bytes'') (\<lambda>t r. Inr (reply 206 [])) (Inl EOF))
       ''u'' ''f'' (- 3) fresh))
     = [Http (Head ''u''), Http (Get ''u'' (Some (0, 1))), Fs (OpCreate ''f''), Fs (OpTruncate ''f'' 10),
        Http (Get ''u'' (Some (0, 9))), Fs (OpOpen ''f''), Fs (OpSeek ''f'' 0)]"
proof -
  let ?h = "head_resp 200 ''10'' ''bytes''"
  let ?p = "reply 206 []"
  let ?e = "server ?h (\<lambda>t r. Inr ?p) (Inl EOF)"
  let ?w4 = "emit (Fs (OpTruncate ''f'' 10)) (emit (Fs (OpCreate ''f''))
           (emit (Http (Get ''u'' (Some (0, 1)))) (emit (Http (Head ''u'')) fresh)))"
  note neg = workers_override [where wo = "- 3" and e = ?e and url = "''u''" and out = "''f''"
      and w = fresh and fsize = 2]
  note pos = workers_override [where wo = 8 and e = ?e and url = "''u''" and out = "''f''"
      and w = fresh and fsize = 2 and hresp = ?h and presp = ?p]
  have sg: "(- 3::int) < 0" "(- 3::int) \<le> 0" "(0::int) < 8" by simp_all
  note run = workers_override [where wo = 3 and e = ?e and url = "''u''" and out = "''f''"
      and w = fresh and fsize = 10 and hresp = ?h and presp = ?p]
  have hyp: "http ?e (tick fresh) (Head ''u'') = Inr ?h" "StatusCode ?h = 200"
    "Atoi (Header_Get ?h ''Content-Length'') = Some 10"
    "Header_Get ?h ''Accept-Ranges'' = ''bytes''" "url_ok ?e ''u''"
    "http ?e (Suc (tick fresh)) (Get ''u'' (Some (0, 1))) = Inr ?p" "StatusCode ?p = 206"
    "fs_fault ?e (Suc (Suc (tick fresh))) (OpCreate ''f'') = None" "(0::int) \<le> 10"
    "fs_fault ?e (Suc (Suc (Suc (tick fresh)))) (OpTruncate ''f'' 10) = None"
    by (simp_all add: server_def head_resp_def reply_def Header_Get_def Atoi_def digit_val_def)
  from neg sg have 1: "downloadFile ?e ''u'' ''f'' (- 3) fresh = downloadFile ?e ''u'' ''f'' 0 fresh"
    by blast
  from neg sg have 2: "resolveWorkers 2 (- 3) = calculateWorkers 2" by blast
  from pos sg have 3: "resolveWorkers 2 8 = 8" by blast
  from pos sg have "length (chunkPlan 2 (resolveWorkers 2 8)) = nat 8" by blast
  then have 4: "length (chunkPlan 2 (resolveWorkers 2 8)) = 8" by simp
  from run hyp have 5: "fst (downloadFile ?e ''u'' ''f'' 3 fresh) = None"
    and all: "\<forall>r \<in> set (chunkPlan 10 (if (0::int) < 3 then 3 else calculateWorkers 10)).
       Http (Get ''u'' (Some r)) \<in> set (events_since ?w4 (snd (downloadFile ?e ''u'' ''f'' 3 fresh)))"
    by blast+
  from all have all': "\<forall>r \<in> set [(0, 2), (3, 5), (6, 9)].
       Http (Get ''u'' (Some r)) \<in> set (events_since ?w4 (snd (downloadFile ?e ''u'' ''f'' 3 fresh)))"
    by (simp only: chunkPlan_10_3 zero_less_numeral if_True)
  then have 6: "Http (Get ''u'' (Some (0, 2))) \<in> set (events_since ?w4 (snd (downloadFile ?e ''u'' ''f'' 3 fresh)))"
    and 7: "Http (Get ''u'' (Some (3, 5))) \<in> set (events_since ?w4 (snd (downloadFile ?e ''u'' ''f'' 3 fresh)))"
    and 8: "Http (Get ''u'' (Some (6, 9))) \<in> set (events_since ?w4 (snd (downloadFile ?e ''u'' ''f'' 3 fresh)))"
    by simp_all
  have 9: "trace (snd (downloadFile ?e ''u'' ''f'' 3 fresh))
     = [Http (Head ''u''), Http (Get ''u'' (Some (0, 1))), Fs (OpCreate ''f''), Fs (OpTruncate ''f'' 10),
        Http (Get ''u'' (Some (0, 2))), Fs (OpOpen ''f''), Fs (OpSeek ''f'' 0),
        Http (Get ''u'' (Some (3, 5))), Fs (OpOpen ''f''), Fs (OpSeek ''f'' 3),
        Http (Get ''u'' (Some (6, 9))), Fs (OpOpen ''f''), Fs (OpSeek ''f'' 6)]"
    by (simp add: run_defs eval_nat_numeral)
  have 10: "trace (snd (downloadFile ?e ''u'' ''f'' (- 3) fresh))
     = [Http (Head ''u''), Http (Get ''u'' (Some (0, 1))), Fs (OpCreate ''f''), Fs (OpTruncate ''f'' 10),
        Http (Get ''u'' (Some (0, 9))), Fs (OpOpen ''f''), Fs (OpSeek ''f'' 0)]"
    by (simp add: run_defs)
  from 1 2 3 4 chunkPlan_10_3 5 6 7 8 9 10 show ?thesis by (intro conjI)
qed


subsection \<open>The single-stream fallback (claim C9)\<close>

text \<open>
  C9. \<^verbatim>\<open>singleDownload\<close> sends exactly one request, the unranged \<^verbatim>\<open>GET\<close>, and never
  sleeps or repeats anything. A transport error, a status other than 200 and a failure
  to create the file each end it at once with that error; otherwise the file is created
  empty and the result is the result of the one copy of the body into it, which on a
  clean stream leaves exactly the received bytes in the file. When the probe finds the
  server not range-capable (no \<^verbatim>\<open>Accept-Ranges: bytes\<close>, or a test request answered with
  a status other than 206), \<^verbatim>\<open>downloadFile\<close> returns what \<^verbatim>\<open>singleDownload\<close> returns.
\<close>

theorem singleDownload_terminal:
  "filter is_request (events_since w (snd (singleDownload e url out w))) = [Http (Get url None)]
   \<and> filter is_sleep (events_since w (snd (singleDownload e url out w))) = []
   \<and> (http e (tick w) (Get url None) = Inl err \<longrightarrow>
        singleDownload e url out w = (Some err, emit (Http (Get url None)) w))
   \<and> (http e (tick w) (Get url None) = Inr resp \<and> StatusCode resp \<noteq> 200 \<longrightarrow>
        singleDownload e url out w
          = (Some (StatusError (StatusCode resp)), emit (Http (Get url None)) w))
   \<and> (http e (tick w) (Get url None) = Inr resp \<and> StatusCode resp = 200
        \<and> fs_fault e (Suc (tick w)) (OpCreate out) = Some err \<longrightarrow>
        singleDownload e url out w
          = (Some err, emit (Fs (OpCreate out)) (emit (Http (Get url None)) w)))
   \<and> (http e (tick w) (Get url None) = Inr resp \<and> StatusCode resp = 200
        \<and> fs_fault e (Suc (tick w)) (OpCreate out) = None \<longrightarrow>
        singleDownload e url out w
          = io_Copy e out (Body resp)
              ((emit (Fs (OpCreate out)) (emit (Http (Get url None)) w))
                 \<lparr>files := (files w)(out := Some [])\<rparr>))
   \<and> (http e (tick w) (Get url None) = Inr resp \<and> StatusCode resp = 200
        \<and> (\<forall>t op. fs_fault e t op = None) \<and> ends_in_EOF (Body resp) \<longrightarrow>
        fst (singleDownload e url out w) = None
        \<and> files (snd (singleDownload e url out w)) out = Some (received (Body resp)))
   \<and> (http e (tick w0) (Head url) = Inr hresp \<and> StatusCode hresp = 200
        \<and> Atoi (Header_Get hresp ''Content-Length'') = Some fsize
        \<and> Header_Get hresp ''Accept-Ranges'' \<noteq> ''bytes'' \<longrightarrow>
        downloadFile e url out wo w0 = singleDownload e url out (emit (Http (Head url)) w0))
   \<and> (http e (tick w0) (Head url) = Inr hresp \<and> StatusCode hresp = 200
        \<and> Atoi (Header_Get hresp ''Content-Length'') = Some fsize
        \<and> Header_Get hresp ''Accept-Ranges'' = ''bytes'' \<and> url_ok e url
        \<and> http e (Suc (tick w0)) (Get url (Some (0, 1))) = Inr presp \<and> StatusCode presp \<noteq> 206 \<longrightarrow>
        downloadFile e url out wo w0
          = singleDownload e url out
              (emit (Http (Get url (Some (0, 1)))) (emit (Http (Head url)) w0)))"
proof (intro conjI impI)
  show "filter is_request (events_since w (snd (singleDownload e url out w))) = [Http (Get url None)]"
    and "filter is_sleep (events_since w (snd (singleDownload e url out w))) = []"
    using singleDownload_events [of w e url out] by simp_all
next
  assume "http e (tick w) (Get url None) = Inl err"
  then show "singleDownload e url out w = (Some err, emit (Http (Get url None)) w)"
    by (simp add: singleDownload_cases)
next
  assume "http e (tick w) (Get url None) = Inr resp \<and> StatusCode resp \<noteq> 200"
  then show "singleDownload e url out w
      = (Some (StatusError (StatusCode resp)), emit (Http (Get url None)) w)"
    by (simp add: singleDownload_cases)
next
  assume "http e (tick w) (Get url None) = Inr resp \<and> StatusCode resp = 200
      \<and> fs_fault e (Suc (tick w)) (OpCreate out) = Some err"
  then show "singleDownload e url out w
      = (Some err, emit (Fs (OpCreate out)) (emit (Http (Get url None)) w))"
    by (simp add: singleDownload_cases)
next
  assume "http e (tick w) (Get url None) = Inr resp \<and> StatusCode resp = 200
      \<and> fs_fault e (Suc (tick w)) (OpCreate out) = None"
  then show "singleDownload e url out w
      = io_Copy e out (Body resp)
          ((emit (Fs (OpCreate out)) (emit (Http (Get url None)) w))
             \<lparr>files := (files w)(out := Some [])\<rparr>)"
    by (simp add: singleDownload_cases)
next
  assume a: "http e (tick w) (Get url None) = Inr resp \<and> StatusCode resp = 200
      \<and> (\<forall>t op. fs_fault e t op = None) \<and> ends_in_EOF (Body resp)"
  then have "fst (singleDownload e url out w) = None
      \<and> files (snd (singleDownload e url out w)) out = Some (received (Body resp))"
    by (intro singleDownload_clean) auto
  then show "fst (singleDownload e url out w) = None"
    and "files (snd (singleDownload e url out w)) out = Some (received (Body resp))"
    by simp_all
next
  assume "http e (tick w0) (Head url) = Inr hresp \<and> StatusCode hresp = 200
      \<and> Atoi (Header_Get hresp ''Content-Length'') = Some fsize
      \<and> Header_Get hresp ''Accept-Ranges'' \<noteq> ''bytes''"
  then show "downloadFile e url out wo w0 = singleDownload e url out (emit (Http (Head url)) w0)"
    by (intro downloadFile_paths(1)) auto
next
  assume "http e (tick w0) (Head url) = Inr hresp \<and> StatusCode hresp = 200
      \<and> Atoi (Header_Get hresp ''Content-Length'') = Some fsize
      \<and> Header_Get hresp ''Accept-Ranges'' = ''bytes'' \<and> url_ok e url
      \<and> http e (Suc (tick w0)) (Get url (Some (0, 1))) = Inr presp \<and> StatusCode presp \<noteq> 206"
  then show "downloadFile e url out wo w0
      = singleDownload e url out (emit (Http (Get url (Some (0, 1)))) (emit (Http (Head url)) w0))"
    by (intro downloadFile_paths(4)) auto
qed

theorem singleDownload_terminal_witness:
  "downloadFile (server (head_resp 200 ''3'' ''none'') (\<lambda>t r. Inl EOF) (Inr (reply 200 [([1, 2], None), ([3], Some EOF)])))
       ''u'' ''f'' 0 fresh
     = singleDownload (server (head_resp 200 ''3'' ''none'') (\<lambda>t r. Inl EOF) (Inr (reply 200 [([1, 2], None), ([3], Some EOF)])))
       ''u'' ''f'' (emit (Http (Head ''u'')) fresh)
   \<and> fst (singleDownload (server (head_resp 200 ''3'' ''none'') (\<lambda>t r. Inl EOF) (Inr (reply 200 [([1, 2], None), ([3], Some EOF)])))
       ''u'' ''f'' (emit (Http (Head ''u'')) fresh)) = None
   \<and> files (snd (singleDownload (server (head_resp 200 ''3'' ''none'') (\<lambda>t r. Inl EOF) (Inr (reply 200 [([1, 2], None), ([3], Some EOF)])))
       ''u'' ''f'' (emit (Http (Head ''u'')) fresh))) ''f'' = Some [1, 2, 3]
   \<and> filter is_request (events_since (emit (Http (Head ''u'')) fresh)
        (snd (singleDownload (server (head_resp 200 ''3'' ''none'') (\<lambda>t r. Inl EOF) (Inr (reply 200 [([1, 2], None), ([3], Some EOF)])))
       ''u'' ''f'' (emit (Http (Head ''u'')) fresh)))) = [Http (Get ''u'' None)]
   \<and> singleDownload (server (head_resp 200 ''3'' ''none'') (\<lambda>t r. Inl EOF) (Inr (reply 500 [])))
       ''u'' ''f'' (emit (Http (Head ''u'')) fresh)
     = (Some (StatusError 500), emit (Http (Get ''u'' None)) (emit (Http (Head ''u'')) fresh))"
proof -
  let ?ok = "reply 200 [([1, 2], None), ([3], Some EOF)]"
  let ?e = "server (head_resp 200 ''3'' ''none'') (\<lambda>t r. Inl EOF) (Inr ?ok)"
  let ?e5 = "server (head_resp 200 ''3'' ''none'') (\<lambda>t r. Inl EOF) (Inr (reply 500 []))"
  let ?w1 = "emit (Http (Head ''u'')) fresh"
  note t = singleDownload_terminal [where w = ?w1 and e = ?e and url = "''u''" and out = "''f''"
      and resp = ?ok and ?w0.0 = fresh and hresp = "head_resp 200 ''3'' ''none''" and fsize = 3 and wo = 0]
  note t5 = singleDownload_terminal [where w = ?w1 and e = ?e5 and url = "''u''" and out = "''f''"
      and resp = "reply 500 []"]
  have a: "Atoi (Header_Get (head_resp 200 ''3'' ''none'') ''Content-Length'') = Some 3"
    by (simp add: head_resp_def Header_Get_def Atoi_def digit_val_def)
  have b: "Header_Get (head_resp 200 ''3'' ''none'') ''Accept-Ranges'' \<noteq> ''bytes''"
    by (simp add: head_resp_def Header_Get_def)
  have c: "http ?e (tick fresh) (Head ''u'') = Inr (head_resp 200 ''3'' ''none'')"
    "StatusCode (head_resp 200 ''3'' ''none'') = 200"
    "http ?e (tick ?w1) (Get ''u'' None) = Inr ?ok" "StatusCode ?ok = 200"
    "\<forall>t op. fs_fault ?e t op = None" "ends_in_EOF (Body ?ok)" "received (Body ?ok) = [1, 2, 3]"
    by (simp_all add: server_def head_resp_def reply_def)
  have c5: "http ?e5 (tick ?w1) (Get ''u'' None) = Inr (reply 500 [])" "StatusCode (reply 500 []) = 500"
    by (simp_all add: server_def reply_def)
  from t a b c have 1: "downloadFile ?e ''u'' ''f'' 0 fresh = singleDownload ?e ''u'' ''f'' ?w1"
    by blast
  from t c have 2: "fst (singleDownload ?e ''u'' ''f'' ?w1) = None"
    and 3: "files (snd (singleDownload ?e ''u'' ''f'' ?w1)) ''f'' = Some (received (Body ?ok))"
    by blast+
  from t have 4: "filter is_request (events_since ?w1 (snd (singleDownload ?e ''u'' ''f'' ?w1)))
      = [Http (Get ''u'' None)]"
    by blast
  from t5 c5 have 5: "singleDownload ?e5 ''u'' ''f'' ?w1
      = (Some (StatusError (StatusCode (reply 500 []))), emit (Http (Get ''u'' None)) ?w1)"
    by simp
  from 1 2 3 4 5 c(7) c5(2) show ?thesis by simp
qed

subsection \<open>The capability probe (claim C3)\<close>

text \<open>
  C3, as the code has it. After a good metadata answer the server is treated as
  range-capable exactly when the \<^verbatim>\<open>Accept-Ranges\<close> header of the \<^verbatim>\<open>HEAD\<close> response is
  \<^verbatim>\<open>bytes\<close> and the test request \<^verbatim>\<open>Range: bytes=0-1\<close> is answered with status 206; no
  header of that answer is read, so its \<^verbatim>\<open>Content-Range\<close> plays no part. Then the
  ranged transfer runs and no unranged \<^verbatim>\<open>GET\<close> is sent. When \<^verbatim>\<open>Accept-Ranges\<close> is not
  \<^verbatim>\<open>bytes\<close>, or the test request is answered with another status, the transfer is the
  single-stream fallback with its one unranged \<^verbatim>\<open>GET\<close>. When the test request fails in
  transport (or cannot be built), \<^verbatim>\<open>downloadFile\<close> returns that error and does not fall
  back.
\<close>

theorem range_capability:
  assumes "http e (tick w) (Head url) = Inr hresp" and "StatusCode hresp = 200"
    and "Atoi (Header_Get hresp ''Content-Length'') = Some fsize"
  shows "(Header_Get hresp ''Accept-Ranges'' = ''bytes'' \<and> url_ok e url
          \<and> http e (Suc (tick w)) (Get url (Some (0, 1))) = Inr presp \<and> StatusCode presp = 206 \<longrightarrow>
            downloadFile e url out wo w
              = rangedDownload e url out fsize wo
                  (emit (Http (Get url (Some (0, 1)))) (emit (Http (Head url)) w))
            \<and> filter is_unranged_get (events_since w (snd (downloadFile e url out wo w))) = [])
    \<and> (Header_Get hresp ''Accept-Ranges'' \<noteq> ''bytes'' \<longrightarrow>
            downloadFile e url out wo w = singleDownload e url out (emit (Http (Head url)) w)
            \<and> filter is_unranged_get (events_since w (snd (downloadFile e url out wo w)))
                = [Http (Get url None)])
    \<and> (Header_Get hresp ''Accept-Ranges'' = ''bytes'' \<and> url_ok e url
          \<and> http e (Suc (tick w)) (Get url (Some (0, 1))) = Inr presp \<and> StatusCode presp \<noteq> 206 \<longrightarrow>
            downloadFile e url out wo w
              = singleDownload e url out
                  (emit (Http (Get url (Some (0, 1)))) (emit (Http (Head url)) w))
            \<and> filter is_unranged_get (events_since w (snd (downloadFile e url out wo w)))
                = [Http (Get url None)])
    \<and> (Header_Get hresp ''Accept-Ranges'' = ''bytes'' \<and> url_ok e url
          \<and> http e (Suc (tick w)) (Get url (Some (0, 1))) = Inl err \<longrightarrow>
            downloadFile e url out wo w
              = (Some (VerifyError err),
                 emit (Http (Get url (Some (0, 1)))) (emit (Http (Head url)) w)))
    \<and> (Header_Get hresp ''Accept-Ranges'' = ''bytes'' \<and> \<not> url_ok e url \<longrightarrow>
            downloadFile e url out wo w
              = (Some (VerifyError UrlError), emit (Http (Head url)) w))"
proof (intro conjI impI)
  let ?w1 = "emit (Http (Head url)) w"
  let ?w2 = "emit (Http (Get url (Some (0, 1)))) ?w1"
  note paths = downloadFile_paths [OF assms]
  {
    assume a: "Header_Get hresp ''Accept-Ranges'' = ''bytes'' \<and> url_ok e url
          \<and> http e (Suc (tick w)) (Get url (Some (0, 1))) = Inr presp \<and> StatusCode presp = 206"
    then show eq: "downloadFile e url out wo w = rangedDownload e url out fsize wo ?w2"
      by (intro paths(5)) auto
    from rangedDownload_events [of ?w2 e url out fsize wo]
    have g: "grows ?w2 (snd (rangedDownload e url out fsize wo ?w2))"
      and u: "filter is_unranged_get (events_since ?w2 (snd (rangedDownload e url out fsize wo ?w2))) = []"
      by simp_all
    show "filter is_unranged_get (events_since w (snd (downloadFile e url out wo w))) = []"
      unfolding eq events_after_probe [OF g] using u by simp
  }
  {
    assume a: "Header_Get hresp ''Accept-Ranges'' \<noteq> ''bytes''"
    then show eq: "downloadFile e url out wo w = singleDownload e url out ?w1"
      by (rule paths(1))
    from singleDownload_events [of ?w1 e url out]
    have g: "grows ?w1 (snd (singleDownload e url out ?w1))" by simp
    show "filter is_unranged_get (events_since w (snd (downloadFile e url out wo w)))
        = [Http (Get url None)]"
      unfolding eq events_after_head [OF g] by (simp add: singleDownload_unranged)
  }
  {
    assume a: "Header_Get hresp ''Accept-Ranges'' = ''bytes'' \<and> url_ok e url
          \<and> http e (Suc (tick w)) (Get url (Some (0, 1))) = Inr presp \<and> StatusCode presp \<noteq> 206"
    then show eq: "downloadFile e url out wo w = singleDownload e url out ?w2"
      by (intro paths(4)) auto
    from singleDownload_events [of ?w2 e url out]
    have g: "grows ?w2 (snd (singleDownload e url out ?w2))" by simp
    show "filter is_unranged_get (events_since w (snd (downloadFile e url out wo w)))
        = [Http (Get url None)]"
      unfolding eq events_after_probe [OF g] by (simp add: singleDownload_unranged)
  }
  {
    assume "Header_Get hresp ''Accept-Ranges'' = ''bytes'' \<and> url_ok e url
          \<and> http e (Suc (tick w)) (Get url (Some (0, 1))) = Inl err"
    then show "downloadFile e url out wo w = (Some (VerifyError err), ?w2)"
      by (intro paths(3)) auto
  }
  {
    assume "Header_Get hresp ''Accept-Ranges'' = ''bytes'' \<and> \<not> url_ok e url"
    then show "downloadFile e url out wo w = (Some (VerifyError UrlError), ?w1)"
      by (intro paths(2)) auto
  }
qed

theorem range_capability_witness:
  "Header_Get (reply 206 [([7, 7], Some EOF)]) ''Content-Range'' = []
   \<and> downloadFile (server (head_resp 200 ''4'' ''bytes'') (\<lambda>t r. Inr (reply 206 [([7, 7], Some EOF)]))
         (Inr (reply 200 [([1, 2, 3, 4], Some EOF)]))) ''u'' ''f'' 0 fresh
     = rangedDownload (server (head_resp 200 ''4'' ''bytes'') (\<lambda>t r. Inr (reply 206 [([7, 7], Some EOF)]))
         (Inr (reply 200 [([1, 2, 3, 4], Some EOF)]))) ''u'' ''f'' 4 0
         (emit (Http (Get ''u'' (Some (0, 1)))) (emit (Http (Head ''u'')) fresh))
   \<and> filter is_unranged_get (events_since fresh (snd (downloadFile
         (server (head_resp 200 ''4'' ''bytes'') (\<lambda>t r. Inr (reply 206 [([7, 7], Some EOF)]))
         (Inr (reply 200 [([1, 2, 3, 4], Some EOF)]))) ''u'' ''f'' 0 fresh))) = []
   \<and> filter is_unranged_get (events_since fresh (snd (downloadFile
         (server (head_resp 200 ''4'' ''bytes'') (\<lambda>t r. Inr (reply 200 [([1, 2, 3, 4], Some EOF)]))
         (Inr (reply 200 [([1, 2, 3, 4], Some EOF)]))) ''u'' ''f'' 0 fresh))) = [Http (Get ''u'' None)]"
proof -
  let ?h = "head_resp 200 ''4'' ''bytes''"
  let ?p = "reply 206 [([7, 7], Some EOF)]"
  let ?full = "reply 200 [([1, 2, 3, 4], Some EOF)]"
  let ?e = "server ?h (\<lambda>t r. Inr ?p) (Inr ?full)"
  let ?e2 = "server ?h (\<lambda>t r. Inr ?full) (Inr ?full)"
  have h: "http ?e (tick fresh) (Head ''u'') = Inr ?h" "http ?e2 (tick fresh) (Head ''u'') = Inr ?h"
    "StatusCode ?h = 200"
    "Atoi (Header_Get ?h ''Content-Length'') = Some 4"
    by (simp_all add: server_def head_resp_def Header_Get_def Atoi_def digit_val_def)
  have p: "Header_Get ?h ''Accept-Ranges'' = ''bytes''" "url_ok ?e ''u''" "url_ok ?e2 ''u''"
    "http ?e (Suc (tick fresh)) (Get ''u'' (Some (0, 1))) = Inr ?p" "StatusCode ?p = 206"
    "http ?e2 (Suc (tick fresh)) (Get ''u'' (Some (0, 1))) = Inr ?full" "StatusCode ?full \<noteq> 206"
    "Header_Get ?p ''Content-Range'' = []"
    by (simp_all add: server_def head_resp_def reply_def Header_Get_def)
  note t = range_capability [OF h(1) h(3) h(4), where presp = ?p and out = "''f''" and wo = 0]
  note t2 = range_capability [OF h(2) h(3) h(4), where presp = ?full and out = "''f''" and wo = 0]
  from t p have 1: "downloadFile ?e ''u'' ''f'' 0 fresh
      = rangedDownload ?e ''u'' ''f'' 4 0 (emit (Http (Get ''u'' (Some (0, 1)))) (emit (Http (Head ''u'')) fresh))"
    and 2: "filter is_unranged_get (events_since fresh (snd (downloadFile ?e ''u'' ''f'' 0 fresh))) = []"
    by blast+
  from t2 p have 3: "filter is_unranged_get (events_since fresh (snd (downloadFile ?e2 ''u'' ''f'' 0 fresh)))
      = [Http (Get ''u'' None)]"
    by blast
  from p(8) 1 2 3 show ?thesis by (intro conjI)
qed

text \<open>
  The claim as written also asks for a correct content range in the answer to the test
  request, and for the fallback whenever the test fails. Here the 206 answer has no
  \<^verbatim>\<open>Content-Range\<close> header at all and the ranged transfer runs all the same; and a test
  request that is reset ends the transfer with an error, without the fallback.
\<close>

theorem probe_ignores_content_range:
  "Header_Get (reply 206 [([7, 7], Some EOF)]) ''Content-Range'' = []
   \<and> http (server (head_resp 200 ''4'' ''bytes'') (\<lambda>t r. Inr (reply 206 [([7, 7], Some EOF)]))
         (Inr (reply 200 [([1, 2, 3, 4], Some EOF)]))) 1 (Get ''u'' (Some (0, 1)))
       = Inr (reply 206 [([7, 7], Some EOF)])
   \<and> trace (snd (downloadFile (server (head_resp 200 ''4'' ''bytes'') (\<lambda>t r. Inr (reply 206 [([7, 7], Some EOF)]))
         (Inr (reply 200 [([1, 2, 3, 4], Some EOF)]))) ''u'' ''f'' 0 fresh))
     = [Http (Head ''u''), Http (Get ''u'' (Some (0, 1))), Fs (OpCreate ''f''), Fs (OpTruncate ''f'' 4),
        Http (Get ''u'' (Some (0, 3))), Fs (OpOpen ''f''), Fs (OpSeek ''f'' 0),
        Fs (OpWrite ''f'' 0 [7, 7]), BarAdd 2]
   \<and> downloadFile (server (head_resp 200 ''4'' ''bytes'') (\<lambda>t r. Inl (TransportError ''reset''))
         (Inr (reply 200 [([1, 2, 3, 4], Some EOF)]))) ''u'' ''f'' 0 fresh
     = (Some (VerifyError (TransportError ''reset'')),
        fresh\<lparr>tick := 2, trace := [Http (Head ''u''), Http (Get ''u'' (Some (0, 1)))]\<rparr>)"
  by (simp add: run_defs)

end
